theory Spec2Isabelle
  imports Complex_Main "HOL-Library.AList" "HOL-Library.Sublist"
begin

section \<open>JavaScript values\<close>

text \<open>
  The option object handed to \<open>ctree\<close> is an ordinary JavaScript object. A value is one
  of the language's primitives, an array, or a plain object; a plain object is the list of
  its own enumerable string-keyed properties in the order they were created (keys
  distinct). Strings are lists of one-byte characters. A number's payload is never
  inspected by the program (only \<open>typeof\<close> is), so it is carried as a real.
\<close>

datatype jsval =
    JUndefined
  | JNull
  | JBoolean bool
  | JNumber real
  | JBigInt int
  | JString string
  | JSymbol
  | JFunction
  | JArray "jsval list"
  | JObject "(string \<times> jsval) list"

text \<open>
  What an evaluation can end in besides a value: the \<open>Error\<close> thrown by \<open>mergeOptions\<close>
  with its message, a \<open>TypeError\<close> or a \<open>SyntaxError\<close> thrown by the runtime, and
  \<open>Unmodelled\<close> where the input leaves the fragment of the runtime library that this
  theory describes (no theorem below concludes anything about the program from it).
\<close>

datatype error = Error string | TypeError | SyntaxError | Unmodelled

definition esc :: char where
  "esc = CHR 0x1B"

definition bslash :: char where
  "bslash = CHR 0x5C"

definition newline :: char where
  "newline = CHR 0x0A"

definition isDigit :: "char \<Rightarrow> bool" where
  "isDigit c = (c \<in> set ''0123456789'')"

text \<open>Decimal notation of a natural number, as \<open>String(n)\<close> prints an integer.\<close>

function showNat :: "nat \<Rightarrow> string" where
  "showNat n =
     (if n < 10 then [''0123456789'' ! n]
      else showNat (n div 10) @ [''0123456789'' ! (n mod 10)])"
  by pat_completeness auto
termination
  by (relation "measure id") auto

text \<open>\<open>typeof v\<close>; note \<open>typeof null\<close> and \<open>typeof []\<close> are both \<open>"object"\<close>.\<close>

fun typeofJS :: "jsval \<Rightarrow> string" where
  "typeofJS JUndefined = ''undefined''"
| "typeofJS JNull = ''object''"
| "typeofJS (JBoolean _) = ''boolean''"
| "typeofJS (JNumber _) = ''number''"
| "typeofJS (JBigInt _) = ''bigint''"
| "typeofJS (JString _) = ''string''"
| "typeofJS JSymbol = ''symbol''"
| "typeofJS JFunction = ''function''"
| "typeofJS (JArray _) = ''object''"
| "typeofJS (JObject _) = ''object''"

fun isArrayJS :: "jsval \<Rightarrow> bool" where
  "isArrayJS (JArray _) = True"
| "isArrayJS _ = False"

subsection \<open>Property enumeration order\<close>

text \<open>
  \<open>for ... in\<close>, \<open>Object.entries\<close>, \<open>Object.values\<close> and object spread all visit the own
  properties in the same order: keys that are array indices (canonical decimal numerals
  below \<open>2^32 - 1\<close>) first, ascending, then the other keys in creation order.
\<close>

definition indexValue :: "string \<Rightarrow> nat" where
  "indexValue k = foldl (\<lambda>n c. 10 * n + (of_char c - 48)) 0 k"

definition isArrayIndex :: "string \<Rightarrow> bool" where
  "isArrayIndex k =
     (k \<noteq> [] \<and> list_all isDigit k \<and> (if hd k = CHR ''0'' then length k = 1 else True)
      \<and> indexValue k < 4294967295)"

definition ownEntries :: "(string \<times> jsval) list \<Rightarrow> (string \<times> jsval) list" where
  "ownEntries kvs =
     sort_key (\<lambda>kv. indexValue (fst kv)) (filter (\<lambda>kv. isArrayIndex (fst kv)) kvs)
     @ filter (\<lambda>kv. \<not> isArrayIndex (fst kv)) kvs"

text \<open>
  \<open>{...target, ...source}\<close>: every own property of the source is written to the target;
  an existing key keeps its place and takes the new value, a new key is appended.
\<close>

definition spread :: "(string \<times> jsval) list \<Rightarrow> (string \<times> jsval) list \<Rightarrow> (string \<times> jsval) list" where
  "spread source target = fold (\<lambda>kv. AList.update (fst kv) (snd kv)) (ownEntries source) target"

text \<open>\<open>obj.key\<close>: a missing property reads as \<open>undefined\<close>.\<close>

definition getProp :: "(string \<times> jsval) list \<Rightarrow> string \<Rightarrow> jsval" where
  "getProp obj key = (case map_of obj key of Some v \<Rightarrow> v | None \<Rightarrow> JUndefined)"

text \<open>
  \<open>Object.entries(v)\<close>: the entries of a plain object, the indexed characters of a string,
  a \<open>TypeError\<close> for \<open>null\<close> and \<open>undefined\<close>. The other kinds of value never reach it
  (validation rejects them).
\<close>

fun objectEntries :: "jsval \<Rightarrow> error + (string \<times> jsval) list" where
  "objectEntries (JObject kvs) = Inr (ownEntries kvs)"
| "objectEntries (JString s) = Inr (map (\<lambda>i. (showNat i, JString [s ! i])) [0..<length s])"
| "objectEntries JNull = Inl TypeError"
| "objectEntries JUndefined = Inl TypeError"
| "objectEntries _ = Inl Unmodelled"

text \<open>\<open>Object.values(v)\<close>, read as text: after validation every value is a string.\<close>

fun asText :: "jsval \<Rightarrow> error + string" where
  "asText (JString s) = Inr s"
| "asText _ = Inl Unmodelled"

fun allText :: "jsval list \<Rightarrow> error + string list" where
  "allText [] = Inr []"
| "allText (v # vs) =
     (case asText v of
        Inl e \<Rightarrow> Inl e
      | Inr s \<Rightarrow> (case allText vs of Inl e \<Rightarrow> Inl e | Inr ss \<Rightarrow> Inr (s # ss)))"

definition objectValues :: "jsval \<Rightarrow> error + string list" where
  "objectValues v =
     (case objectEntries v of Inl e \<Rightarrow> Inl e | Inr kvs \<Rightarrow> allText (map snd kvs))"

text \<open>
  \<open>String(v)\<close>, as a template literal and \<open>Array.prototype.join\<close> apply it. A plain object
  prints as \<open>[object Object]\<close>; when it has an own property \<open>toString\<close> that is not
  callable (here: a string) and no callable \<open>valueOf\<close> of its own, the conversion throws
  a \<open>TypeError\<close>.
\<close>

fun toStringJS :: "jsval \<Rightarrow> error + string" where
  "toStringJS (JString s) = Inr s"
| "toStringJS JNull = Inr ''null''"
| "toStringJS JUndefined = Inr ''undefined''"
| "toStringJS (JBoolean b) = Inr (if b then ''true'' else ''false'')"
| "toStringJS (JObject kvs) =
     (case map_of kvs ''toString'' of
        None \<Rightarrow> Inr ''[object Object]''
      | Some (JString _) \<Rightarrow>
          (case map_of kvs ''valueOf'' of
             None \<Rightarrow> Inl TypeError
           | Some (JString _) \<Rightarrow> Inl TypeError
           | Some _ \<Rightarrow> Inl Unmodelled)
      | Some _ \<Rightarrow> Inl Unmodelled)"
| "toStringJS _ = Inl Unmodelled"

subsection \<open>\<open>String.prototype.split\<close> with a string separator, and \<open>Array.prototype.join\<close>\<close>

text \<open>
  With a non-empty separator the string is cut at every occurrence found scanning from the
  left, occurrences not overlapping; with the empty separator it is cut into its
  characters.
\<close>

function splitOn :: "string \<Rightarrow> string \<Rightarrow> string list" where
  "splitOn sep [] = [[]]"
| "splitOn sep (c # cs) =
     (if sep \<noteq> [] \<and> prefix sep (c # cs)
      then [] # splitOn sep (drop (length sep) (c # cs))
      else (case splitOn sep cs of [] \<Rightarrow> [[c]] | p # ps \<Rightarrow> (c # p) # ps))"
  by pat_completeness auto
termination
  by (relation "measure (\<lambda>(sep, s). length s)") auto

definition splitJS :: "string \<Rightarrow> string \<Rightarrow> string list" where
  "splitJS sep s = (if sep = [] then map (\<lambda>c. [c]) s else splitOn sep s)"

fun joinJS :: "string \<Rightarrow> string list \<Rightarrow> string" where
  "joinJS sep [] = []"
| "joinJS sep [p] = p"
| "joinJS sep (p # q # ps) = p @ sep @ joinJS sep (q # ps)"

section \<open>Option merging\<close>

definition defaultOptions :: "(string \<times> jsval) list" where
  "defaultOptions =
     [(''star'', JObject
         [(''TOP'', JString ''|''),
          (''TREE_STAR'', JString ''+''),
          (''LEFT'', JString ''-''),
          (''RIGHT'', JString ''-''),
          (''BOTTOM'', JString ''A'')]),
      (''balls'', JString ''O''),
      (''stars'', JString ''*'')]"

text \<open>The properties a \<open>for ... in\<close> loop visits on a value whose \<open>typeof\<close> is \<open>"object"\<close>.\<close>

fun forIn :: "jsval \<Rightarrow> (string \<times> jsval) list" where
  "forIn (JObject kvs) = ownEntries kvs"
| "forIn _ = []"

fun validateSub :: "string \<Rightarrow> (string \<times> jsval) list \<Rightarrow> error option" where
  "validateSub key [] = None"
| "validateSub key ((subKey, v) # rest) =
     (if typeofJS v \<noteq> ''string''
      then Some (Error (''Invalid value for '' @ key @ ''.'' @ subKey
                         @ '': expected a string but got '' @ typeofJS v))
      else validateSub key rest)"

fun validate :: "(string \<times> jsval) list \<Rightarrow> error option" where
  "validate [] = None"
| "validate ((key, v) # rest) =
     (if typeofJS v = ''object'' \<and> \<not> isArrayJS v then
        (case validateSub key (forIn v) of Some e \<Rightarrow> Some e | None \<Rightarrow> validate rest)
      else if typeofJS v \<noteq> ''string'' then
        Some (Error (''Invalid value for '' @ key @ '': expected a string but got '' @ typeofJS v))
      else validate rest)"

definition mergeOptions :: "(string \<times> jsval) list \<Rightarrow> error + (string \<times> jsval) list" where
  "mergeOptions newOptions =
     (let mergedOptions = spread newOptions (spread defaultOptions [])
      in case validate (ownEntries mergedOptions) of
           Some e \<Rightarrow> Inl e
         | None \<Rightarrow> Inr mergedOptions)"

section \<open>Colors\<close>

datatype color = Color nat nat nat

fun toAnsi :: "color \<Rightarrow> string" where
  "toAnsi (Color r g b) =
     esc # ''[38;2;'' @ showNat r @ '';'' @ showNat g @ '';'' @ showNat b @ ''m''"

definition reset :: "color \<Rightarrow> string" where
  "reset c = esc # ''[0m''"

definition format :: "color \<Rightarrow> string \<Rightarrow> string" where
  "format c char = toAnsi c @ char @ reset c"

definition yellow :: color where
  "yellow = Color 255 255 0"

definition green :: color where
  "green = Color 0 255 0"

definition brown :: color where
  "brown = Color 210 105 30"

section \<open>The template and placeholder substitution\<close>

text \<open>
  The template literal of the source, one line of it per line here. A string literal of
  Isabelle cannot hold a backslash, so \<open>%\<close> (which the template does not use) stands for
  each backslash of the template text and \<open>input0\<close> puts the backslashes back. The
  template starts with a line break and every line ends with one.
\<close>

definition templateLines :: "string list" where
  "templateLines =
   [''         yTOP'',
    ''        yLEFTyANGELyRIGHT'',
    ''         yA'',
    ''        g/g=g%               /%  /%    ___  _ __  _ __ __    __'',
    ''      10g/ ySTAR g%20            /  %/  %  / _ %| '__|| '__|% %  / /'',
    ''      g/g=g=g=g=g=g%           / /%  /% %|  __/| |   | |    % %/ /'',
    ''      g/  3BALL  g%          %_% %/ /_/ %___/|_|   |_|     %  /'',
    ''    40g/ 50 ySTAR 60 g%70                                       / /'',
    ''    g/g=g=g=g=g=g=g=g=g=g%        __  __                        /_/    _'',
    ''    g/  ySTAR   ySTAR  g%        % %/ /        /%  /%    ____  ____  | |'',
    ''  80g/ ySTAR   90   ySTAR g%100       %  /   __   /  %/  %  / _  |/ ___% |_|'',
    ''  g/g=g=g=g=g=g=g=g=g=g=g=g=g=g%       /  %  |__| / /%  /% %| (_| |%___ %  _'',
    ''  g/  140   ySTAR   150  g%      /_/%_%      %_% %/ /_/ %__,_|%____/ |_|'',
    ''160g/ ySTAR   170   180   ySTAR g%190'',
    ''g/g=g=g=g=g=g=g=g=g=g=g=g=g=g=g=g=g=g%'',
    ''       b|   b|'',
    ''       b|b_b_b_b|'']"

definition input0 :: string where
  "input0 =
     map (\<lambda>c. if c = CHR ''%'' then bslash else c)
       (newline # concat (map (\<lambda>l. l @ [newline]) templateLines))"

fun modifyLoop :: "string \<Rightarrow> (string \<times> jsval) list \<Rightarrow> error + string" where
  "modifyLoop modified [] = Inr modified"
| "modifyLoop modified ((charToReplace, newChar) # rest) =
     (case toStringJS newChar of
        Inl e \<Rightarrow> Inl e
      | Inr t \<Rightarrow> modifyLoop (joinJS t (splitJS charToReplace modified)) rest)"

definition modifyTemplate :: "string \<Rightarrow> jsval \<Rightarrow> error + string" where
  "modifyTemplate input replacements =
     (case objectEntries replacements of
        Inl e \<Rightarrow> Inl e
      | Inr entries \<Rightarrow> modifyLoop input entries)"

section \<open>Regular expressions\<close>

text \<open>
  The runtime's \<open>RegExp\<close> for a pattern without the flags \<open>u\<close>, \<open>v\<close>, \<open>i\<close>, \<open>m\<close> and \<open>s\<close> (the
  program passes \<open>g\<close> only), in the syntax that web browsers and Node.js accept (Annex B of
  the language definition): the pattern is parsed into a term, and matching follows the
  backtracking order of the language definition. The model has literal characters, \<open>.\<close>,
  character classes, the class escapes \<open>\d \D \w \W \s \S\<close>, the control, hexadecimal and
  identity escapes, \<open>^\<close>, \<open>$\<close>, \<open>\b\<close>, \<open>\B\<close>, groups, \<open>(?:\<close>, the lookaheads \<open>(?=\<close> and \<open>(?!\<close>,
  alternation, and the quantifiers \<open>*\<close>, \<open>+\<close>, \<open>?\<close>, \<open>{n}\<close>, \<open>{n,}\<close>, \<open>{n,m}\<close> with their lazy
  forms (the flag of a quantifier says greedy). A brace that does not start a quantifier,
  \<open>}\<close> and \<open>]\<close> are literal characters. The text captured by a group is not kept: the
  callback of the program never looks at it. So a pattern with a backreference or an octal
  escape (a backslash and a digit, \<open>\0\<close> before a non-digit apart), with a named group, a
  lookbehind or another \<open>(?\<close> group, or with an escape \<open>\u\<close> beyond the code 255 (the strings
  here are lists of 8-bit characters) is answered by \<open>Unmodelled\<close>.
\<close>

definition isLetter :: "char \<Rightarrow> bool" where
  "isLetter c = (c \<in> set ''abcdefghijklmnopqrstuvwxyzABCDEFGHIJKLMNOPQRSTUVWXYZ'')"

definition isWord :: "char \<Rightarrow> bool" where
  "isWord c = (isLetter c \<or> isDigit c \<or> c = CHR ''_'')"

definition isSpace :: "char \<Rightarrow> bool" where
  "isSpace c = (c \<in> set [CHR 0x09, CHR 0x0A, CHR 0x0B, CHR 0x0C, CHR 0x0D, CHR 0x20, CHR 0xA0])"

text \<open>
  An item of a character class: a character, a range, or one of \<open>\d\<close>, \<open>\w\<close>, \<open>\s\<close> (with
  \<open>False\<close>: \<open>\D\<close>, \<open>\W\<close>, \<open>\S\<close>). \<open>Cls negated items\<close> is the class, \<open>Bol\<close> and \<open>Eol\<close> are \<open>^\<close> and
  \<open>$\<close>, \<open>WordB True\<close> is \<open>\b\<close>, \<open>Look True\<close> is \<open>(?=\<close>, and \<open>Rep greedy n m\<close> is the quantifier
  in braces (\<open>m = None\<close>: no upper bound).
\<close>

datatype citem = COne char | CRange char char | CDigit bool | CWord bool | CSpace bool

datatype rx =
    Eps
  | Chr char
  | AnyChar
  | Digit
  | Cls bool "citem list"
  | Bol
  | Eol
  | WordB bool
  | Look bool rx
  | Seq rx rx
  | Alt rx rx
  | Opt bool rx
  | Star bool rx
  | Plus bool rx
  | Rep bool nat "nat option" rx

fun seqOf :: "rx list \<Rightarrow> rx" where
  "seqOf [] = Eps"
| "seqOf [t] = t"
| "seqOf (t # u # ts) = Seq t (seqOf (u # ts))"

fun altOf :: "rx list \<Rightarrow> rx" where
  "altOf [] = Eps"
| "altOf [a] = a"
| "altOf (a # b # as) = Alt a (altOf (b # as))"

text \<open>
  A disjunction under construction: the alternatives already closed and the terms of the
  current alternative, both latest first.
\<close>

definition closeGroup :: "rx list \<Rightarrow> rx list \<Rightarrow> rx" where
  "closeGroup alts terms = altOf (rev (seqOf (rev terms) # alts))"

definition quant :: "char \<Rightarrow> bool \<Rightarrow> rx \<Rightarrow> rx" where
  "quant c greedy t =
     (if c = CHR ''*'' then Star greedy t
      else if c = CHR ''+'' then Plus greedy t
      else Opt greedy t)"

subsection \<open>Braces, escapes and character classes\<close>

definition natOf :: "string \<Rightarrow> nat" where
  "natOf ds = foldl (\<lambda>n c. 10 * n + (of_char c - 48)) 0 ds"

definition hexVal :: "char \<Rightarrow> nat option" where
  "hexVal c = map_of (zip ''0123456789abcdefABCDEF'' ([0..<16] @ [10..<16])) c"

text \<open>
  \<open>{n}\<close>, \<open>{n,}\<close>, \<open>{n,m}\<close>: from the text after the opening brace, the bounds and the number
  of characters read; \<open>None\<close> when the text is not of one of these forms.
\<close>

definition parseBrace :: "string \<Rightarrow> (nat \<times> nat option \<times> nat) option" where
  "parseBrace cs =
     (let ds1 = takeWhile isDigit cs; r1 = dropWhile isDigit cs
      in if ds1 = [] then None
         else (case r1 of
                 [] \<Rightarrow> None
               | c # r2 \<Rightarrow>
                   if c = CHR ''}'' then Some (natOf ds1, Some (natOf ds1), length ds1 + 1)
                   else if c = CHR '','' then
                     (let ds2 = takeWhile isDigit r2; r3 = dropWhile isDigit r2
                      in (case r3 of
                            [] \<Rightarrow> None
                          | d # _ \<Rightarrow>
                              if d \<noteq> CHR ''}'' then None
                              else if ds2 = [] then Some (natOf ds1, None, length ds1 + 2)
                              else Some (natOf ds1, Some (natOf ds2), length ds1 + length ds2 + 2)))
                   else None))"

text \<open>
  A character escape: from the character \<open>d\<close> after the backslash and the text after \<open>d\<close>,
  the character meant and the number of characters read after \<open>d\<close>. An \<open>x\<close> or \<open>u\<close> without
  its hexadecimal digits, and every character with no other meaning, stands for itself.
\<close>

definition charEscape :: "char \<Rightarrow> string \<Rightarrow> error + (char \<times> nat)" where
  "charEscape d ds =
     (if d = CHR ''f'' then Inr (CHR 0x0C, 0)
      else if d = CHR ''n'' then Inr (CHR 0x0A, 0)
      else if d = CHR ''r'' then Inr (CHR 0x0D, 0)
      else if d = CHR ''t'' then Inr (CHR 0x09, 0)
      else if d = CHR ''v'' then Inr (CHR 0x0B, 0)
      else if d = CHR ''0'' then
        (case ds of [] \<Rightarrow> Inr (CHR 0x00, 0) | x # _ \<Rightarrow> if isDigit x then Inl Unmodelled else Inr (CHR 0x00, 0))
      else if isDigit d then Inl Unmodelled
      else if d = CHR ''x'' then
        (case map hexVal (take 2 ds) of
           [Some h, Some l] \<Rightarrow> Inr (char_of (16 * h + l), 2)
         | _ \<Rightarrow> Inr (d, 0))
      else if d = CHR ''u'' then
        (case map hexVal (take 4 ds) of
           [Some a, Some b, Some h, Some l] \<Rightarrow>
             if a = 0 \<and> b = 0 then Inr (char_of (16 * h + l), 4) else Inl Unmodelled
         | _ \<Rightarrow> Inr (d, 0))
      else Inr (d, 0))"

datatype catom = ASingle char | ASet citem

fun itemOf :: "catom \<Rightarrow> citem" where
  "itemOf (ASingle c) = COne c"
| "itemOf (ASet i) = i"

text \<open>
  One atom of a character class, from its first character \<open>c\<close> and the text after it; the
  number is that of the characters read after \<open>c\<close>. In a class \<open>\b\<close> is the backspace, and
  \<open>\c\<close> takes a letter, a digit or \<open>_\<close>; a \<open>\c\<close> before anything else is a backslash.
\<close>

definition classAtom :: "char \<Rightarrow> string \<Rightarrow> error + (catom \<times> nat)" where
  "classAtom c cs =
     (if c \<noteq> bslash then Inr (ASingle c, 0)
      else (case cs of
              [] \<Rightarrow> Inl SyntaxError
            | d # ds \<Rightarrow>
                if d = CHR ''b'' then Inr (ASingle (CHR 0x08), 1)
                else if d = CHR ''d'' then Inr (ASet (CDigit True), 1)
                else if d = CHR ''D'' then Inr (ASet (CDigit False), 1)
                else if d = CHR ''w'' then Inr (ASet (CWord True), 1)
                else if d = CHR ''W'' then Inr (ASet (CWord False), 1)
                else if d = CHR ''s'' then Inr (ASet (CSpace True), 1)
                else if d = CHR ''S'' then Inr (ASet (CSpace False), 1)
                else if d = CHR ''c'' then
                  (case ds of
                     [] \<Rightarrow> Inr (ASingle bslash, 0)
                   | x # _ \<Rightarrow>
                       if isWord x then Inr (ASingle (char_of (of_char x mod (32::nat))), 2)
                       else Inr (ASingle bslash, 0))
                else (case charEscape d ds of
                        Inl e \<Rightarrow> Inl e
                      | Inr (x, n) \<Rightarrow> Inr (ASingle x, Suc n))))"

text \<open>
  The items of a class up to the closing bracket, and the number of characters read. A
  \<open>-\<close> between two atoms makes a range when both are single characters (a syntax error
  when they are out of order); next to \<open>\d\<close> and the like it is a character of the class.
\<close>

function classLoop :: "string \<Rightarrow> citem list \<Rightarrow> nat \<Rightarrow> error + (citem list \<times> nat)" where
  "classLoop [] acc n = Inl SyntaxError"
| "classLoop (c # cs) acc n =
     (if c = CHR '']'' then Inr (rev acc, Suc n)
      else (case classAtom c cs of
              Inl e \<Rightarrow> Inl e
            | Inr (a, k) \<Rightarrow>
                (case drop k cs of
                   [] \<Rightarrow> Inl SyntaxError
                 | d # ds \<Rightarrow>
                     if d = CHR ''-'' \<and> ds \<noteq> [] \<and> hd ds \<noteq> CHR '']'' then
                       (case classAtom (hd ds) (tl ds) of
                          Inl e \<Rightarrow> Inl e
                        | Inr (b, j) \<Rightarrow>
                            (case (a, b) of
                               (ASingle p, ASingle q) \<Rightarrow>
                                 if (of_char q :: nat) < of_char p then Inl SyntaxError
                                 else classLoop (drop j (tl ds)) (CRange p q # acc) (n + k + j + 3)
                             | _ \<Rightarrow>
                                 classLoop (drop j (tl ds))
                                   (itemOf b # COne (CHR ''-'') # itemOf a # acc) (n + k + j + 3)))
                     else classLoop (d # ds) (itemOf a # acc) (Suc (n + k)))))"
  by pat_completeness auto
termination
proof (relation "measure (\<lambda>(s, acc, n). length s)", goal_cases)
  case 1
  show ?case by simp
next
  case (2 c cs acc n x2 a k d ds x2a b j p q)
  have "length (drop j (tl ds)) \<le> length ds" by simp
  also have "\<dots> < length (d # ds)" by simp
  also have "\<dots> \<le> length cs" unfolding 2(4) [symmetric] by simp
  finally show ?case by simp
next
  case (3 c cs acc n x2 a k d ds x2a b j)
  have "length (drop j (tl ds)) \<le> length ds" by simp
  also have "\<dots> < length (d # ds)" by simp
  also have "\<dots> \<le> length cs" unfolding 3(4) [symmetric] by simp
  finally show ?case by simp
next
  case (4 c cs acc n x2 a k d ds x2a b j)
  have "length (drop j (tl ds)) \<le> length ds" by simp
  also have "\<dots> < length (d # ds)" by simp
  also have "\<dots> \<le> length cs" unfolding 4(4) [symmetric] by simp
  finally show ?case by simp
next
  case (5 c cs acc n x2 a k d ds)
  have "length (d # ds) \<le> length cs" unfolding 5(4) [symmetric] by simp
  then show ?case by simp
qed

text \<open>The class from the text after the opening bracket: negated, its items, characters read.\<close>

definition parseClass :: "string \<Rightarrow> error + (bool \<times> citem list \<times> nat)" where
  "parseClass cs =
     (case cs of
        [] \<Rightarrow> Inl SyntaxError
      | c # r \<Rightarrow>
          if c = CHR ''^'' then
            (case classLoop r [] 1 of Inl e \<Rightarrow> Inl e | Inr (items, n) \<Rightarrow> Inr (True, items, n))
          else
            (case classLoop cs [] 0 of Inl e \<Rightarrow> Inl e | Inr (items, n) \<Rightarrow> Inr (False, items, n)))"

subsection \<open>The parser\<close>

datatype gkind = Group | Ahead bool

fun closeAs :: "gkind \<Rightarrow> rx \<Rightarrow> rx" where
  "closeAs Group r = r"
| "closeAs (Ahead positive) r = Look positive r"

text \<open>
  The parser reads the pattern from the left. \<open>stack\<close> holds the enclosing groups, \<open>q\<close>
  says whether the last term can take a quantifier (an assertion \<open>^\<close>, \<open>$\<close>, \<open>\b\<close>, \<open>\B\<close> and a
  quantified term cannot). It stops at the first syntax error (a quantifier with nothing
  to repeat, bounds out of order, an unmatched parenthesis, an unterminated group or
  class, a range out of order, a backslash or \<open>(?\<close> at the end of the pattern) or at the
  first construct that is not modelled.
\<close>

fun parseRx :: "(gkind \<times> rx list \<times> rx list) list \<Rightarrow> rx list \<Rightarrow> rx list \<Rightarrow> bool \<Rightarrow> string \<Rightarrow> error + rx" where
  "parseRx stack alts terms q [] =
     (if stack = [] then Inr (closeGroup alts terms) else Inl SyntaxError)"
| "parseRx stack alts terms q (c # cs) =
     (if c = CHR ''('' then
        (case cs of
           [] \<Rightarrow> Inl SyntaxError
         | d # ds \<Rightarrow>
             if d = CHR ''?'' then
               (case ds of
                  [] \<Rightarrow> Inl SyntaxError
                | x # xs \<Rightarrow>
                    if x = CHR '':'' then parseRx ((Group, alts, terms) # stack) [] [] False xs
                    else if x = CHR ''='' then parseRx ((Ahead True, alts, terms) # stack) [] [] False xs
                    else if x = CHR ''!'' then parseRx ((Ahead False, alts, terms) # stack) [] [] False xs
                    else Inl Unmodelled)
             else parseRx ((Group, alts, terms) # stack) [] [] False cs)
      else if c = CHR '')'' then
        (case stack of
           [] \<Rightarrow> Inl SyntaxError
         | (kind, alts', terms') # stack' \<Rightarrow>
             parseRx stack' alts' (closeAs kind (closeGroup alts terms) # terms') True cs)
      else if c = CHR ''|'' then parseRx stack (seqOf (rev terms) # alts) [] False cs
      else if c \<in> set ''*+?'' then
        (case terms of
           [] \<Rightarrow> Inl SyntaxError
         | t # ts \<Rightarrow>
             if \<not> q then Inl SyntaxError
             else (case cs of
                     [] \<Rightarrow> parseRx stack alts (quant c True t # ts) False []
                   | d # ds \<Rightarrow>
                       if d = CHR ''?'' then parseRx stack alts (quant c False t # ts) False ds
                       else parseRx stack alts (quant c True t # ts) False cs))
      else if c = CHR ''{'' then
        (case parseBrace cs of
           None \<Rightarrow> parseRx stack alts (Chr c # terms) True cs
         | Some (lo, hi, n) \<Rightarrow>
             (case terms of
                [] \<Rightarrow> Inl SyntaxError
              | t # ts \<Rightarrow>
                  if \<not> q then Inl SyntaxError
                  else if (case hi of None \<Rightarrow> False | Some h \<Rightarrow> h < lo) then Inl SyntaxError
                  else if take 1 (drop n cs) = ''?'' then
                    parseRx stack alts (Rep False lo hi t # ts) False (drop (Suc n) cs)
                  else parseRx stack alts (Rep True lo hi t # ts) False (drop n cs)))
      else if c = CHR ''['' then
        (case parseClass cs of
           Inl e \<Rightarrow> Inl e
         | Inr (negated, items, n) \<Rightarrow> parseRx stack alts (Cls negated items # terms) True (drop n cs))
      else if c = bslash then
        (case cs of
           [] \<Rightarrow> Inl SyntaxError
         | d # ds \<Rightarrow>
             if d = CHR ''d'' then parseRx stack alts (Digit # terms) True ds
             else if d = CHR ''D'' then parseRx stack alts (Cls False [CDigit False] # terms) True ds
             else if d = CHR ''w'' then parseRx stack alts (Cls False [CWord True] # terms) True ds
             else if d = CHR ''W'' then parseRx stack alts (Cls False [CWord False] # terms) True ds
             else if d = CHR ''s'' then parseRx stack alts (Cls False [CSpace True] # terms) True ds
             else if d = CHR ''S'' then parseRx stack alts (Cls False [CSpace False] # terms) True ds
             else if d = CHR ''b'' then parseRx stack alts (WordB True # terms) False ds
             else if d = CHR ''B'' then parseRx stack alts (WordB False # terms) False ds
             else if d = CHR ''c'' then
               (case ds of
                  [] \<Rightarrow> parseRx stack alts (Chr bslash # terms) True cs
                | x # xs \<Rightarrow>
                    if isLetter x then parseRx stack alts (Chr (char_of (of_char x mod (32::nat))) # terms) True xs
                    else parseRx stack alts (Chr bslash # terms) True cs)
             else (case charEscape d ds of
                     Inl e \<Rightarrow> Inl e
                   | Inr (x, n) \<Rightarrow> parseRx stack alts (Chr x # terms) True (drop n ds)))
      else if c = CHR ''.'' then parseRx stack alts (AnyChar # terms) True cs
      else if c = CHR ''^'' then parseRx stack alts (Bol # terms) False cs
      else if c = CHR ''$'' then parseRx stack alts (Eol # terms) False cs
      else parseRx stack alts (Chr c # terms) True cs)"

definition regExpNew :: "string \<Rightarrow> error + rx" where
  "regExpNew pattern = parseRx [] [] [] False pattern"

subsection \<open>Matching\<close>

fun itemHas :: "char \<Rightarrow> citem \<Rightarrow> bool" where
  "itemHas x (COne c) = (x = c)"
| "itemHas x (CRange a b) = ((of_char a :: nat) \<le> of_char x \<and> (of_char x :: nat) \<le> of_char b)"
| "itemHas x (CDigit p) = (isDigit x = p)"
| "itemHas x (CWord p) = (isWord x = p)"
| "itemHas x (CSpace p) = (isSpace x = p)"

definition inClass :: "bool \<Rightarrow> citem list \<Rightarrow> char \<Rightarrow> bool" where
  "inClass negated items x = (list_ex (itemHas x) items \<noteq> negated)"

text \<open>
  \<open>w\<close> is the whole text and \<open>s\<close> what is left of it at the current position: whether a
  word character stands before the position, and at it.
\<close>

definition wordBefore :: "string \<Rightarrow> string \<Rightarrow> bool" where
  "wordBefore w s = (length s < length w \<and> isWord (w ! (length w - length s - 1)))"

definition wordAt :: "string \<Rightarrow> bool" where
  "wordAt s = (case s of [] \<Rightarrow> False | x # _ \<Rightarrow> isWord x)"

fun rxSize :: "rx \<Rightarrow> nat" where
  "rxSize (Seq a b) = Suc (rxSize a + rxSize b)"
| "rxSize (Alt a b) = Suc (rxSize a + rxSize b)"
| "rxSize (Opt g a) = Suc (rxSize a)"
| "rxSize (Star g a) = Suc (rxSize a)"
| "rxSize (Plus g a) = Suc (Suc (rxSize a))"
| "rxSize (Rep g lo hi a) = Suc (rxSize a)"
| "rxSize (Look p a) = Suc (rxSize a)"
| "rxSize _ = 0"

fun repMin :: "rx \<Rightarrow> nat" where
  "repMin (Rep g lo hi a) = lo"
| "repMin _ = 0"

definition oneLess :: "nat option \<Rightarrow> nat option" where
  "oneLess hi = map_option (\<lambda>h. h - 1) hi"

text \<open>
  \<open>matches r w s\<close> lists what is left of \<open>s\<close> after each way \<open>r\<close> can match a prefix of it, in
  the order in which backtracking tries them; the first element is the match the engine
  reports. \<open>w\<close> is the whole text, of which \<open>s\<close> is the rest at the current position: \<open>^\<close>
  holds at its start (there is no flag \<open>m\<close>), \<open>$\<close> at its end. An iteration of a quantifier
  beyond its lower bound that consumes nothing is rejected, as the language definition
  has it (the test reads "is shorter" where that also bounds the recursion).
\<close>

function matches :: "rx \<Rightarrow> string \<Rightarrow> string \<Rightarrow> string list" where
  "matches Eps w s = [s]"
| "matches (Chr c) w s = (case s of [] \<Rightarrow> [] | x # xs \<Rightarrow> if x = c then [xs] else [])"
| "matches AnyChar w s =
     (case s of [] \<Rightarrow> [] | x # xs \<Rightarrow> if x = CHR 0x0A \<or> x = CHR 0x0D then [] else [xs])"
| "matches Digit w s = (case s of [] \<Rightarrow> [] | x # xs \<Rightarrow> if isDigit x then [xs] else [])"
| "matches (Cls negated items) w s =
     (case s of [] \<Rightarrow> [] | x # xs \<Rightarrow> if inClass negated items x then [xs] else [])"
| "matches Bol w s = (if length s = length w then [s] else [])"
| "matches Eol w s = (if s = [] then [s] else [])"
| "matches (WordB b) w s = (if (wordBefore w s \<noteq> wordAt s) = b then [s] else [])"
| "matches (Look positive a) w s = (if (matches a w s \<noteq> []) = positive then [s] else [])"
| "matches (Seq a b) w s = concat (map (matches b w) (matches a w s))"
| "matches (Alt a b) w s = matches a w s @ matches b w s"
| "matches (Opt greedy a) w s =
     (let iter = filter (\<lambda>y. length y \<noteq> length s) (matches a w s)
      in if greedy then iter @ [s] else s # iter)"
| "matches (Star greedy a) w s =
     (let iter = concat (map (\<lambda>y. if length y < length s then matches (Star greedy a) w y else [])
                          (matches a w s))
      in if greedy then iter @ [s] else s # iter)"
| "matches (Plus greedy a) w s = concat (map (matches (Star greedy a) w) (matches a w s))"
| "matches (Rep greedy lo hi a) w s =
     (if hi = Some 0 then [s]
      else if 0 < lo then
        concat (map (matches (Rep greedy (lo - 1) (oneLess hi) a) w) (matches a w s))
      else
        (let iter = concat (map (\<lambda>y. if length y < length s
                                       then matches (Rep greedy 0 (oneLess hi) a) w y else [])
                             (matches a w s))
         in if greedy then iter @ [s] else s # iter))"
  by pat_completeness auto
termination
  by (relation "measures [\<lambda>(r, w, s). rxSize r, \<lambda>(r, w, s). repMin r, \<lambda>(r, w, s). length s]") auto

text \<open>
  \<open>w.replace(regex, callback)\<close> for a global regex, from the position where \<open>s\<close> is left of
  \<open>w\<close>: the matches are found from the left, each search starting where the last match
  ended (one character further after an empty match); the text between matches is copied,
  and the \<open>k\<close>-th match is replaced by the callback's \<open>k\<close>-th result. The callback of the
  program ignores its arguments.
\<close>

function replaceG :: "rx \<Rightarrow> (nat \<Rightarrow> string) \<Rightarrow> nat \<Rightarrow> string \<Rightarrow> string \<Rightarrow> string" where
  "replaceG regex callback k w s =
     (case matches regex w s of
        [] \<Rightarrow> (case s of [] \<Rightarrow> [] | c # cs \<Rightarrow> c # replaceG regex callback k w cs)
      | y # _ \<Rightarrow>
          if length y < length s then callback k @ replaceG regex callback (Suc k) w y
          else (case s of
                  [] \<Rightarrow> callback k
                | c # cs \<Rightarrow> callback k @ c # replaceG regex callback (Suc k) w cs))"
  by pat_completeness auto
termination
  by (relation "measure (\<lambda>(regex, callback, k, w, s). length s)") auto

section \<open>Numbers: the product and the floor of \<open>getRandomInt\<close>\<close>

text \<open>
  A Number of the language is an IEEE 754 double. \<open>Dbl m e\<close> is the non-negative finite
  double \<open>m * 2 ^ e\<close>: every such double has a mantissa \<open>m\<close> below \<open>2 ^ 53\<close> and an exponent
  \<open>e\<close> from \<open>-1074\<close> to \<open>971\<close>. The product of two doubles is the exact product rounded to
  the nearest double, a tie going to the even mantissa: \<open>excess\<close> counts the bits of the
  exact mantissa beyond 53, \<open>roundShift\<close> drops that many bits and rounds. (A product of
  \<open>2 ^ 1024\<close> or more would be \<open>Infinity\<close>, which the type does not have; a product with a
  draw of \<open>Math.random()\<close>, which is below 1, and the integer 6 is far from it.)
\<close>

datatype double = Dbl int int

fun valD :: "double \<Rightarrow> real" where
  "valD (Dbl m e) = of_int m * 2 powi e"

fun isDouble :: "double \<Rightarrow> bool" where
  "isDouble (Dbl m e) \<longleftrightarrow> 0 \<le> m \<and> m < 2 ^ 53 \<and> - 1074 \<le> e \<and> e \<le> 971"

function excess :: "int \<Rightarrow> nat" where
  "excess m = (if m < 2 ^ 53 then 0 else Suc (excess (m div 2)))"
  by pat_completeness auto
termination
  by (relation "measure nat") auto

definition roundShift :: "int \<Rightarrow> nat \<Rightarrow> int" where
  "roundShift m s =
     (let q = m div 2 ^ s; r = m mod 2 ^ s
      in if 2 ^ s < 2 * r \<or> (2 * r = 2 ^ s \<and> odd q) then q + 1 else q)"

definition roundD :: "int \<Rightarrow> int \<Rightarrow> double" where
  "roundD m e = (let s = max (excess m) (nat (- 1074 - e)) in Dbl (roundShift m s) (e + int s))"

fun timesD :: "double \<Rightarrow> double \<Rightarrow> double" where
  "timesD (Dbl m e) (Dbl n f) = roundD (m * n) (e + f)"

fun floorD :: "double \<Rightarrow> int" where
  "floorD (Dbl m e) = (if 0 \<le> e then m * 2 ^ nat e else m div 2 ^ nat (- e))"

section \<open>Random light colors\<close>

text \<open>
  \<open>random\<close> is the double that \<open>Math.random()\<close> returned for this call; \<open>maxv\<close> is the integer
  argument (6 in the program), as the double of the same value.
\<close>

definition getRandomInt :: "double \<Rightarrow> nat \<Rightarrow> int" where
  "getRandomInt random maxv = floorD (timesD random (roundD (int maxv) 0))"

definition pickColor :: "int \<Rightarrow> color" where
  "pickColor selection =
     (if selection = 0 then Color 247 108 246
      else if selection = 1 then Color 85 202 255
      else if selection = 2 then Color 100 0 255
      else if selection = 3 then Color 236 21 0
      else if selection = 4 then Color 243 213 0
      else if selection = 5 then Color 100 255 24
      else Color 255 255 255)"

definition generateColor :: "double \<Rightarrow> string \<Rightarrow> string" where
  "generateColor random input = format (pickColor (getRandomInt random 6)) input"

text \<open>
  \<open>rnd k\<close> is what the \<open>k\<close>-th call of \<open>Math.random()\<close> returns during the invocation; the
  callback of the light pass is the only caller, once per match.
\<close>

definition applyColorsToLights :: "jsval \<Rightarrow> (nat \<Rightarrow> double) \<Rightarrow> string \<Rightarrow> error + string" where
  "applyColorsToLights balls rnd input =
     (case toStringJS balls of
        Inl e \<Rightarrow> Inl e
      | Inr glyph \<Rightarrow>
          (case regExpNew (''('' @ [bslash] @ ''d+)'' @ glyph @ ''?'') of
             Inl e \<Rightarrow> Inl e
           | Inr regex \<Rightarrow> Inr (replaceG regex (\<lambda>k. generateColor (rnd k) glyph) 0 input input)))"

section \<open>Category colors\<close>

fun applyColorToChars :: "string \<Rightarrow> color \<Rightarrow> string \<Rightarrow> string list \<Rightarrow> string" where
  "applyColorToChars applied color charPrefix [] = applied"
| "applyColorToChars applied color charPrefix (char # chars) =
     applyColorToChars (joinJS (format color char) (splitJS (charPrefix @ char) applied))
       color charPrefix chars"

text \<open>\<open>[...Object.values(options.star), ...Object.values(options.stars)]\<close>\<close>

definition yellowChars :: "(string \<times> jsval) list \<Rightarrow> error + string list" where
  "yellowChars options =
     (case objectValues (getProp options ''star'') of
        Inl e \<Rightarrow> Inl e
      | Inr a \<Rightarrow>
          (case objectValues (getProp options ''stars'') of
             Inl e \<Rightarrow> Inl e
           | Inr b \<Rightarrow> Inr (a @ b)))"

definition applyColors :: "(string \<times> jsval) list \<Rightarrow> string \<Rightarrow> error + string" where
  "applyColors options base =
     (case yellowChars options of
        Inl e \<Rightarrow> Inl e
      | Inr chars \<Rightarrow>
          Inr (applyColorToChars
                 (applyColorToChars
                    (applyColorToChars base yellow ''y'' chars)
                    green ''g'' [''/'', [bslash], ''=''])
                 brown ''b'' [''|'', ''_'']))"

section \<open>The exported function\<close>

definition ctree :: "(string \<times> jsval) list \<Rightarrow> (nat \<Rightarrow> double) \<Rightarrow> error + string" where
  "ctree newOptions rnd =
     (case mergeOptions newOptions of
        Inl e \<Rightarrow> Inl e
      | Inr options \<Rightarrow>
          (case modifyTemplate input0 (getProp options ''star'') of
             Inl e \<Rightarrow> Inl e
           | Inr input1 \<Rightarrow>
               (case modifyTemplate input1
                       (JObject [(''BALL'', getProp options ''balls''),
                                 (''STAR'', getProp options ''stars'')]) of
                  Inl e \<Rightarrow> Inl e
                | Inr input2 \<Rightarrow>
                    (case applyColorsToLights (getProp options ''balls'') rnd input2 of
                       Inl e \<Rightarrow> Inl e
                     | Inr lit \<Rightarrow> applyColors options lit))))"

section \<open>Notions used to state and prove the properties\<close>

text \<open>The six colors of the \<open>switch\<close> in \<open>generateColor\<close>, in the order of its cases.\<close>

definition palette :: "color list" where
  "palette =
     [Color 247 108 246, Color 85 202 255, Color 100 0 255,
      Color 236 21 0, Color 243 213 0, Color 100 255 24]"

text \<open>
  What "the glyph wrapped in one of the six palette colors" means, as text: the escape
  sequence \<open>ESC[38;2;R;G;Bm\<close> of the color (pink, light blue, purple, red, orange, light
  green), the glyph, and the reset sequence \<open>ESC[0m\<close>.
\<close>

definition wrappedInPalette :: "string \<Rightarrow> string list" where
  "wrappedInPalette glyph =
     [esc # ''[38;2;247;108;246m'' @ glyph @ esc # ''[0m'',
      esc # ''[38;2;85;202;255m'' @ glyph @ esc # ''[0m'',
      esc # ''[38;2;100;0;255m'' @ glyph @ esc # ''[0m'',
      esc # ''[38;2;236;21;0m'' @ glyph @ esc # ''[0m'',
      esc # ''[38;2;243;213;0m'' @ glyph @ esc # ''[0m'',
      esc # ''[38;2;100;255;24m'' @ glyph @ esc # ''[0m'']"

text \<open>Putting a character in front of the first string of a list.\<close>

fun consHead :: "char \<Rightarrow> string list \<Rightarrow> string list" where
  "consHead c [] = [[c]]"
| "consHead c (p # ps) = (c # p) # ps"

text \<open>\<open>s.split(sep).join(new)\<close>, the global literal replacement of the program.\<close>

definition replaceAll :: "string \<Rightarrow> string \<Rightarrow> string \<Rightarrow> string" where
  "replaceAll sep new s = joinJS new (splitJS sep s)"

text \<open>
  The stretches of text that \<open>replaceG\<close> copies: before the first match, between
  consecutive matches, after the last one. There is one more of them than matches.
\<close>

function pieces :: "rx \<Rightarrow> string \<Rightarrow> string \<Rightarrow> string list" where
  "pieces regex w s =
     (case matches regex w s of
        [] \<Rightarrow> (case s of [] \<Rightarrow> [[]] | c # cs \<Rightarrow> consHead c (pieces regex w cs))
      | y # _ \<Rightarrow>
          if length y < length s then [] # pieces regex w y
          else (case s of [] \<Rightarrow> [[], []] | c # cs \<Rightarrow> [] # consHead c (pieces regex w cs)))"
  by pat_completeness auto
termination
  by (relation "measure (\<lambda>(regex, w, s). length s)") auto

text \<open>\<open>weave ps f k\<close> puts \<open>f k\<close>, \<open>f (k + 1)\<close>, ... between the consecutive strings of \<open>ps\<close>.\<close>

fun weave :: "string list \<Rightarrow> (nat \<Rightarrow> string) \<Rightarrow> nat \<Rightarrow> string" where
  "weave [] f k = []"
| "weave [p] f k = p"
| "weave (p # q # ps) f k = p @ f k @ weave (q # ps) f (Suc k)"


text \<open>The template after both substitution calls of \<open>ctree\<close>.\<close>

definition substituted :: "(string \<times> jsval) list \<Rightarrow> error + string" where
  "substituted options =
     (case modifyTemplate input0 (getProp options ''star'') of
        Inl e \<Rightarrow> Inl e
      | Inr input1 \<Rightarrow>
          modifyTemplate input1
            (JObject [(''BALL'', getProp options ''balls''), (''STAR'', getProp options ''stars'')]))"

text \<open>
  The scans over the text, one case per equation: evaluation by rewriting follows these
  instead of the conditionals of the definitions.
\<close>

definition splitStep :: "bool \<Rightarrow> char \<Rightarrow> string \<Rightarrow> char \<Rightarrow> string \<Rightarrow> string list" where
  "splitStep hit a sep c cs =
     (if hit then [] # splitOn (a # sep) (drop (length sep) cs) else consHead c (splitOn (a # sep) cs))"

definition splitTry :: "bool \<Rightarrow> char \<Rightarrow> string \<Rightarrow> char \<Rightarrow> string \<Rightarrow> string list" where
  "splitTry same a sep c cs =
     (if same then splitStep (prefix sep cs) a sep c cs else consHead c (splitOn (a # sep) cs))"

fun keepIf :: "bool \<Rightarrow> string \<Rightarrow> string list" where
  "keepIf True xs = [xs]"
| "keepIf False xs = []"

definition replaceHit :: "bool \<Rightarrow> string \<Rightarrow> rx \<Rightarrow> (nat \<Rightarrow> string) \<Rightarrow> nat \<Rightarrow> string \<Rightarrow> string \<Rightarrow> string" where
  "replaceHit shorter y regex callback k w s =
     (if shorter then callback k @ replaceG regex callback (Suc k) w y
      else (case s of
              [] \<Rightarrow> callback k
            | c # cs \<Rightarrow> callback k @ c # replaceG regex callback (Suc k) w cs))"

definition replaceStep :: "string list \<Rightarrow> rx \<Rightarrow> (nat \<Rightarrow> string) \<Rightarrow> nat \<Rightarrow> string \<Rightarrow> string \<Rightarrow> string" where
  "replaceStep ms regex callback k w s =
     (case ms of
        [] \<Rightarrow> (case s of [] \<Rightarrow> [] | c # cs \<Rightarrow> c # replaceG regex callback k w cs)
      | y # _ \<Rightarrow> replaceHit (length y < length s) y regex callback k w s)"

definition piecesHit :: "bool \<Rightarrow> string \<Rightarrow> rx \<Rightarrow> string \<Rightarrow> string \<Rightarrow> string list" where
  "piecesHit shorter y regex w s =
     (if shorter then [] # pieces regex w y
      else (case s of [] \<Rightarrow> [[], []] | c # cs \<Rightarrow> [] # consHead c (pieces regex w cs)))"

definition piecesStep :: "string list \<Rightarrow> rx \<Rightarrow> string \<Rightarrow> string \<Rightarrow> string list" where
  "piecesStep ms regex w s =
     (case ms of
        [] \<Rightarrow> (case s of [] \<Rightarrow> [[]] | c # cs \<Rightarrow> consHead c (pieces regex w cs))
      | y # _ \<Rightarrow> piecesHit (length y < length s) y regex w s)"

text \<open>The three category passes of \<open>applyColors\<close>, given the yellow glyphs.\<close>

definition paint :: "string list \<Rightarrow> string \<Rightarrow> string" where
  "paint chars base =
     applyColorToChars
       (applyColorToChars
          (applyColorToChars base yellow ''y'' chars)
          green ''g'' [''/'', [bslash], ''=''])
       brown ''b'' [''|'', ''_'']"

text \<open>The characters of a color escape sequence, the escape character apart.\<close>

definition ansiChars :: string where
  "ansiChars = ''[38;2;0123456789m''"

text \<open>
  \<open>neverAtMiss sep s t\<close>: wherever the scan for \<open>sep\<close> copies a character of \<open>t\<close> (no occurrence
  of \<open>sep\<close> starts there), no occurrence of \<open>s\<close> starts either.
\<close>

definition neverAtMiss :: "string \<Rightarrow> string \<Rightarrow> string \<Rightarrow> bool" where
  "neverAtMiss sep s t = (\<forall>t'. suffix t' t \<and> \<not> prefix sep t' \<longrightarrow> \<not> prefix s t')"

text \<open>
  Replacing every occurrence of a non-empty text by another, scanning from the left and
  going on behind each occurrence: what it means that a pass wraps the occurrences of a
  marker letter and a glyph.
\<close>

function replaceEvery :: "string \<Rightarrow> string \<Rightarrow> string \<Rightarrow> string" where
  "replaceEvery sep new [] = []"
| "replaceEvery sep new (c # cs) =
     (if sep \<noteq> [] \<and> prefix sep (c # cs)
      then new @ replaceEvery sep new (drop (length sep) (c # cs))
      else c # replaceEvery sep new cs)"
  by pat_completeness auto
termination
  by (relation "measure (\<lambda>(sep, new, s). length s)") auto

text \<open>
  Configurations of the examples. \<open>optionsWith bottom balls\<close> is the merged configuration
  in which the glyph below the star and the ball glyph are the given ones and the rest is
  the defaults, \<open>optionsStars stars\<close> the one in which the \<open>stars\<close> value is the given one;
  \<open>starWith bottom\<close> is a complete \<open>star\<close> object; \<open>starTop glyph\<close> is the configuration
  \<open>{star: {TOP: glyph}}\<close> and \<open>escapeStar\<close> the configuration \<open>{star: {TOP: "\x1b", LEFT:
  "y"}}\<close>.
\<close>

definition optionsWith :: "string \<Rightarrow> string \<Rightarrow> (string \<times> jsval) list" where
  "optionsWith bottom balls =
     [(''star'', JObject [(''TOP'', JString ''|''), (''TREE_STAR'', JString ''+''),
                          (''LEFT'', JString ''-''), (''RIGHT'', JString ''-''),
                          (''BOTTOM'', JString bottom)]),
      (''balls'', JString balls),
      (''stars'', JString ''*'')]"

definition optionsStars :: "string \<Rightarrow> (string \<times> jsval) list" where
  "optionsStars stars =
     [(''star'', JObject [(''TOP'', JString ''|''), (''TREE_STAR'', JString ''+''),
                          (''LEFT'', JString ''-''), (''RIGHT'', JString ''-''),
                          (''BOTTOM'', JString ''A'')]),
      (''balls'', JString ''O''),
      (''stars'', JString stars)]"

definition starTop :: "string \<Rightarrow> (string \<times> jsval) list" where
  "starTop glyph = [(''star'', JObject [(''TOP'', JString glyph)])]"

definition starWith :: "string \<Rightarrow> jsval" where
  "starWith bottom =
     JObject [(''TOP'', JString ''|''), (''TREE_STAR'', JString ''+''),
              (''LEFT'', JString ''-''), (''RIGHT'', JString ''-''),
              (''BOTTOM'', JString bottom)]"

definition escapeStar :: "(string \<times> jsval) list" where
  "escapeStar = [(''star'', JObject [(''TOP'', JString [esc]), (''LEFT'', JString ''y'')])]"

section \<open>Splitting, joining and weaving\<close>

declare replaceG.simps [simp del] pieces.simps [simp del]

lemma ownEntries_set [simp]: "set (ownEntries kvs) = set kvs"
  by (auto simp: ownEntries_def)

lemma consHead_nonempty [simp]: "consHead c ps \<noteq> []"
  by (cases ps) auto

lemma splitOn_nonempty [simp]: "splitOn sep s \<noteq> []"
  by (induction sep s rule: splitOn.induct) (auto split: list.splits)

lemma splitOn_Cons:
  "splitOn sep (c # cs) =
     (if sep \<noteq> [] \<and> prefix sep (c # cs) then [] # splitOn sep (drop (length sep) (c # cs))
      else consHead c (splitOn sep cs))"
  by (cases "splitOn sep cs") auto

lemma joinJS_consHead: "ps \<noteq> [] \<Longrightarrow> joinJS new (consHead c ps) = c # joinJS new ps"
  by (induction new ps rule: joinJS.induct) auto

lemma joinJS_Nil_Cons: "ps \<noteq> [] \<Longrightarrow> joinJS new ([] # ps) = new @ joinJS new ps"
  by (cases ps) auto

lemma replaceAll_Nil [simp]: "sep \<noteq> [] \<Longrightarrow> replaceAll sep new [] = []"
  by (simp add: replaceAll_def splitJS_def)

lemma replaceAll_hit:
  "sep \<noteq> [] \<Longrightarrow> prefix sep (c # cs) \<Longrightarrow>
   replaceAll sep new (c # cs) = new @ replaceAll sep new (drop (length sep) (c # cs))"
  by (simp add: replaceAll_def splitJS_def joinJS_Nil_Cons)

lemma replaceAll_miss:
  "sep \<noteq> [] \<Longrightarrow> \<not> prefix sep (c # cs) \<Longrightarrow>
   replaceAll sep new (c # cs) = c # replaceAll sep new cs"
  by (simp add: replaceAll_def splitJS_def splitOn_Cons joinJS_consHead del: splitOn.simps)

lemma pieces_nonempty [simp]: "pieces regex w s \<noteq> []"
  by (subst pieces.simps) (auto split: list.splits)

lemma weave_consHead: "ps \<noteq> [] \<Longrightarrow> weave (consHead c ps) f k = c # weave ps f k"
  by (induction ps f k rule: weave.induct) auto

lemma weave_Nil_Cons: "ps \<noteq> [] \<Longrightarrow> weave ([] # ps) f k = f k @ weave ps f (Suc k)"
  by (cases ps) auto

text \<open>The global replacement is its pieces with the callback's results woven in.\<close>

lemma replaceG_weave: "replaceG regex f k w s = weave (pieces regex w s) f k"
proof (induction regex f k w s rule: replaceG.induct)
  case (1 regex callback k w s)
  show ?case
  proof (cases "matches regex w s")
    case Nil
    then show ?thesis
      using 1(1)
      by (subst replaceG.simps, subst pieces.simps)
         (auto split: list.splits simp: weave_consHead)
  next
    case (Cons y ys)
    then show ?thesis
      using 1(2,3)
      by (subst replaceG.simps, subst pieces.simps)
         (auto split: list.splits simp: weave_consHead weave_Nil_Cons)
  qed
qed

subsection \<open>Equations for evaluation\<close>

lemma splitStep_code [code]:
  "splitStep True a sep c cs = [] # splitOn (a # sep) (drop (length sep) cs)"
  "splitStep False a sep c cs = consHead c (splitOn (a # sep) cs)"
  by (simp_all add: splitStep_def)

lemma splitTry_code [code]:
  "splitTry True a sep c cs = splitStep (prefix sep cs) a sep c cs"
  "splitTry False a sep c cs = consHead c (splitOn (a # sep) cs)"
  by (simp_all add: splitTry_def)

lemma splitOn_code [code]:
  "splitOn sep [] = [[]]"
  "splitOn [] (c # cs) = consHead c (splitOn [] cs)"
  "splitOn (a # sep) (c # cs) = splitTry (a = c) a sep c cs"
  by (auto simp add: splitTry_def splitStep_def split: list.splits)

lemma splitJS_code [code]:
  "splitJS [] s = map (\<lambda>c. [c]) s"
  "splitJS (a # sep) s = splitOn (a # sep) s"
  by (simp_all add: splitJS_def)

lemma isDigit_code [code]:
  "isDigit (Char b0 b1 b2 b3 b4 b5 b6 b7) =
     (\<not> b7 \<and> \<not> b6 \<and> b5 \<and> b4 \<and> (\<not> b3 \<or> (\<not> b2 \<and> \<not> b1)))"
  unfolding isDigit_def
  by (cases b0; cases b1; cases b2; cases b3; cases b4; cases b5; cases b6; cases b7; simp)

lemma matches_code [code]:
  "matches Eps w s = [s]"
  "matches (Chr c) w [] = []"
  "matches (Chr c) w (x # xs) = keepIf (x = c) xs"
  "matches AnyChar w [] = []"
  "matches AnyChar w (x # xs) = keepIf (\<not> (x = CHR 0x0A \<or> x = CHR 0x0D)) xs"
  "matches Digit w [] = []"
  "matches Digit w (x # xs) = keepIf (isDigit x) xs"
  "matches (Cls negated items) w [] = []"
  "matches (Cls negated items) w (x # xs) = keepIf (inClass negated items x) xs"
  "matches Bol w s = keepIf (length s = length w) s"
  "matches Eol w s = keepIf (s = []) s"
  "matches (WordB p) w s = keepIf ((wordBefore w s \<noteq> wordAt s) = p) s"
  "matches (Look positive a) w s = keepIf ((matches a w s \<noteq> []) = positive) s"
  "matches (Seq a b) w s = concat (map (matches b w) (matches a w s))"
  "matches (Alt a b) w s = matches a w s @ matches b w s"
  "matches (Opt greedy a) w s =
     (let iter = filter (\<lambda>y. length y \<noteq> length s) (matches a w s)
      in if greedy then iter @ [s] else s # iter)"
  "matches (Star greedy a) w s =
     (let iter = concat (map (\<lambda>y. if length y < length s then matches (Star greedy a) w y else [])
                          (matches a w s))
      in if greedy then iter @ [s] else s # iter)"
  "matches (Plus greedy a) w s = concat (map (matches (Star greedy a) w) (matches a w s))"
  "matches (Rep greedy lo hi a) w s =
     (if hi = Some 0 then [s]
      else if 0 < lo then
        concat (map (matches (Rep greedy (lo - 1) (oneLess hi) a) w) (matches a w s))
      else
        (let iter = concat (map (\<lambda>y. if length y < length s
                                       then matches (Rep greedy 0 (oneLess hi) a) w y else [])
                             (matches a w s))
         in if greedy then iter @ [s] else s # iter))"
  by simp_all

lemma replaceHit_code [code]:
  "replaceHit True y regex callback k w s = callback k @ replaceG regex callback (Suc k) w y"
  "replaceHit False y regex callback k w [] = callback k"
  "replaceHit False y regex callback k w (c # cs) = callback k @ c # replaceG regex callback (Suc k) w cs"
  by (simp_all add: replaceHit_def)

lemma replaceStep_code [code]:
  "replaceStep [] regex callback k w [] = []"
  "replaceStep [] regex callback k w (c # cs) = c # replaceG regex callback k w cs"
  "replaceStep (y # ys) regex callback k w s = replaceHit (length y < length s) y regex callback k w s"
  by (simp_all add: replaceStep_def)

lemma replaceG_code [code]:
  "replaceG regex callback k w s = replaceStep (matches regex w s) regex callback k w s"
  by (subst replaceG.simps) (simp add: replaceStep_def replaceHit_def split: list.splits)

lemma piecesHit_code [code]:
  "piecesHit True y regex w s = [] # pieces regex w y"
  "piecesHit False y regex w [] = [[], []]"
  "piecesHit False y regex w (c # cs) = [] # consHead c (pieces regex w cs)"
  by (simp_all add: piecesHit_def)

lemma piecesStep_code [code]:
  "piecesStep [] regex w [] = [[]]"
  "piecesStep [] regex w (c # cs) = consHead c (pieces regex w cs)"
  "piecesStep (y # ys) regex w s = piecesHit (length y < length s) y regex w s"
  by (simp_all add: piecesStep_def)

lemma pieces_code [code]:
  "pieces regex w s = piecesStep (matches regex w s) regex w s"
  by (subst pieces.simps) (simp add: piecesStep_def piecesHit_def split: list.splits)

section \<open>Literal replacement: occurrences, blocks that are passed over, characters\<close>

lemma length_consHead: "ps \<noteq> [] \<Longrightarrow> length (consHead c ps) = length ps"
  by (cases ps) auto

lemma sublist_iff_splitOn:
  "sep \<noteq> [] \<Longrightarrow> sublist sep s \<longleftrightarrow> 1 < length (splitOn sep s)"
proof (induction sep s rule: splitOn.induct)
  case (1 sep)
  then show ?case by simp
next
  case (2 sep c cs)
  show ?case
  proof (cases "prefix sep (c # cs)")
    case True
    then have "sublist sep (c # cs)" by (rule prefix_imp_sublist)
    moreover have "1 < length (splitOn sep (c # cs))"
      using True 2(3) by (simp add: splitOn_Cons del: splitOn.simps)
    ultimately show ?thesis by simp
  next
    case False
    then have "sublist sep (c # cs) \<longleftrightarrow> sublist sep cs"
      by (simp add: sublist_Cons_right)
    moreover have "length (splitOn sep (c # cs)) = length (splitOn sep cs)"
      using False by (simp add: splitOn_Cons length_consHead del: splitOn.simps)
    ultimately show ?thesis
      using 2(2) [OF _ 2(3)] False by simp
  qed
qed

lemma replaceAll_absent:
  "sep \<noteq> [] \<Longrightarrow> \<not> sublist sep s \<Longrightarrow> replaceAll sep new s = s"
proof (induction s)
  case Nil
  then show ?case by simp
next
  case (Cons c cs)
  from Cons.prems(2) have "\<not> prefix sep (c # cs)" and "\<not> sublist sep cs"
    by (auto simp: sublist_Cons_right)
  with Cons show ?case by (simp add: replaceAll_miss)
qed

lemma prefix_hd_notin:
  assumes "sep \<noteq> []" and "hd sep \<noteq> c"
  shows "\<not> prefix sep (c # cs)"
  using assms by (cases sep) auto

lemma replaceAll_skip:
  "sep \<noteq> [] \<Longrightarrow> hd sep \<notin> set u \<Longrightarrow> replaceAll sep new (u @ s) = u @ replaceAll sep new s"
proof (induction u)
  case Nil
  then show ?case by simp
next
  case (Cons c u)
  then have "\<not> prefix sep (c # u @ s)"
    by (intro prefix_hd_notin) auto
  with Cons show ?case by (simp add: replaceAll_miss)
qed

lemma prefix_before_absent:
  assumes "prefix sep (u @ x # v)" and "x \<notin> set sep"
  shows "prefix sep u"
proof -
  from assms(1) obtain zs where z: "u @ x # v = sep @ zs"
    by (auto simp: prefix_def)
  then show ?thesis
    using assms(2)
    by (auto simp: append_eq_append_conv2 prefix_def Cons_eq_append_conv)
qed

lemma replaceAll_cut:
  assumes "sep \<noteq> []" and "x \<notin> set sep"
  shows "replaceAll sep new (a @ x # b) = replaceAll sep new a @ x # replaceAll sep new b"
proof (induction a rule: length_induct)
  case (1 a)
  show ?case
  proof (cases a)
    case Nil
    have "\<not> prefix sep (x # b)"
      using assms by (intro prefix_hd_notin) (auto simp: hd_in_set)
    then show ?thesis
      using Nil assms(1) by (simp add: replaceAll_miss)
  next
    case (Cons c a')
    show ?thesis
    proof (cases "prefix sep (c # a')")
      case True
      then have long: "prefix sep ((c # a') @ x # b)"
        by (rule prefix_append [THEN iffD2, OF disjI1])
      from True have le: "length sep \<le> length (c # a')"
        by (rule prefix_length_le)
      let ?r = "drop (length sep) (c # a')"
      have "length ?r < length a"
        using Cons assms(1) by simp
      with 1 have ih: "replaceAll sep new (?r @ x # b) = replaceAll sep new ?r @ x # replaceAll sep new b"
        by blast
      have "replaceAll sep new (a @ x # b) = new @ replaceAll sep new (drop (length sep) ((c # a') @ x # b))"
        using long assms(1) Cons by (simp add: replaceAll_hit)
      also have "drop (length sep) ((c # a') @ x # b) = ?r @ x # b"
        using le by (simp only: drop_append) simp
      finally show ?thesis
        using ih True assms(1) Cons by (simp add: replaceAll_hit)
    next
      case False
      have "\<not> prefix sep ((c # a') @ x # b)"
        using False prefix_before_absent [OF _ assms(2)] by blast
      moreover have "replaceAll sep new (a' @ x # b) = replaceAll sep new a' @ x # replaceAll sep new b"
        using 1 Cons by simp
      ultimately show ?thesis
        using False assms(1) Cons by (simp add: replaceAll_miss)
    qed
  qed
qed

text \<open>A block that starts with \<open>x\<close> and holds no first character of the separator is passed over.\<close>

lemma replaceAll_block:
  assumes "sep \<noteq> []" and "x \<notin> set sep" and "hd sep \<notin> set l"
  shows "replaceAll sep new (a @ (x # l) @ b) = replaceAll sep new a @ (x # l) @ replaceAll sep new b"
  using assms by (simp add: replaceAll_cut replaceAll_skip)

lemma replaceAll_weave:
  assumes "sep \<noteq> []" and "x \<notin> set sep" and "\<And>i. \<exists>l. f i = x # l \<and> hd sep \<notin> set l"
  shows "replaceAll sep new (weave ps f k) = weave (map (replaceAll sep new) ps) f k"
proof (induction ps arbitrary: k)
  case Nil
  then show ?case using assms(1) by simp
next
  case (Cons p ps)
  show ?case
  proof (cases ps)
    case Nil
    then show ?thesis by simp
  next
    case (Cons q qs)
    from assms(3) [of k] obtain l where l: "f k = x # l" "hd sep \<notin> set l" by blast
    have "replaceAll sep new (weave (p # q # qs) f k)
          = replaceAll sep new (p @ (x # l) @ weave (q # qs) f (Suc k))"
      using l by simp
    also have "\<dots> = replaceAll sep new p @ (x # l) @ replaceAll sep new (weave (q # qs) f (Suc k))"
      using assms(1,2) l(2) by (rule replaceAll_block)
    finally show ?thesis
      using Cons.IH [of "Suc k"] Cons l by simp
  qed
qed

lemma applyColorToChars_Cons:
  "applyColorToChars s color charPrefix (c # chars)
   = applyColorToChars (replaceAll (charPrefix @ c) (format color c) s) color charPrefix chars"
  by (simp add: replaceAll_def)

lemma applyColorToChars_weave:
  assumes "charPrefix \<noteq> []"
    and "\<And>c. c \<in> set chars \<Longrightarrow> x \<notin> set (charPrefix @ c)"
    and "\<And>i. \<exists>l. f i = x # l \<and> hd charPrefix \<notin> set l"
  shows "applyColorToChars (weave ps f k) color charPrefix chars
         = weave (map (\<lambda>p. applyColorToChars p color charPrefix chars) ps) f k"
  using assms(2)
proof (induction chars arbitrary: ps)
  case Nil
  show ?case by simp
next
  case (Cons c chars)
  have "replaceAll (charPrefix @ c) (format color c) (weave ps f k)
        = weave (map (replaceAll (charPrefix @ c) (format color c)) ps) f k"
    using assms(1,3) Cons.prems by (intro replaceAll_weave) auto
  moreover have "applyColorToChars (weave qs f k) color charPrefix chars
        = weave (map (\<lambda>p. applyColorToChars p color charPrefix chars) qs) f k" for qs
    using Cons.prems by (intro Cons.IH) auto
  ultimately show ?case
    by (simp only: applyColorToChars_Cons map_map comp_def)
qed

lemma set_replaceAll:
  assumes "sep \<noteq> []"
  shows "set (replaceAll sep new s) \<subseteq> set s \<union> set new"
proof (induction s rule: length_induct)
  case (1 s)
  show ?case
  proof (cases s)
    case Nil
    then show ?thesis using assms by simp
  next
    case (Cons c cs)
    show ?thesis
    proof (cases "prefix sep (c # cs)")
      case True
      have "length (drop (length sep) (c # cs)) < length s"
        using Cons assms by simp
      with 1 have "set (replaceAll sep new (drop (length sep) (c # cs)))
                   \<subseteq> set (drop (length sep) (c # cs)) \<union> set new"
        by blast
      moreover have "set (drop (length sep) (c # cs)) \<subseteq> set (c # cs)"
        by (rule set_drop_subset)
      ultimately show ?thesis
        using True assms Cons by (auto simp: replaceAll_hit)
    next
      case False
      moreover have "set (replaceAll sep new cs) \<subseteq> set cs \<union> set new"
        using 1 Cons by simp
      ultimately show ?thesis
        using assms Cons by (auto simp: replaceAll_miss)
    qed
  qed
qed

lemma set_applyColorToChars:
  assumes "charPrefix \<noteq> []"
  shows "set (applyColorToChars s color charPrefix chars)
         \<subseteq> set s \<union> (\<Union>c\<in>set chars. set (format color c))"
proof (induction chars arbitrary: s)
  case Nil
  show ?case by simp
next
  case (Cons c chars)
  have "set (replaceAll (charPrefix @ c) (format color c) s) \<subseteq> set s \<union> set (format color c)"
    using assms by (intro set_replaceAll) simp
  with Cons [of "replaceAll (charPrefix @ c) (format color c) s"] show ?case
    by (auto simp: applyColorToChars_Cons simp del: applyColorToChars.simps)
qed

lemma set_weave: "set (weave ps f k) \<subseteq> (\<Union>p\<in>set ps. set p) \<union> (\<Union>i. set (f i))"
  by (induction ps f k rule: weave.induct) auto

section \<open>Occurrences that a replacement cannot create\<close>

lemma sublist_cut:
  assumes "sublist s (a @ x # b)" and "x \<notin> set s"
  shows "sublist s a \<or> sublist s b"
proof -
  from assms(1) consider "sublist s a" | "sublist s (x # b)"
    | xs1 xs2 where "s = xs1 @ xs2" "suffix xs1 a" "prefix xs2 (x # b)"
    by (auto simp: sublist_append)
  then show ?thesis
  proof cases
    case 1
    then show ?thesis by simp
  next
    case 2
    then have "prefix s (x # b) \<or> sublist s b" by (simp add: sublist_Cons_right)
    moreover have "prefix s (x # b) \<Longrightarrow> s = []"
      using assms(2) by (cases s) auto
    ultimately show ?thesis by auto
  next
    case 3
    from 3(3) assms(2) 3(1) have "xs2 = []" by (cases xs2) auto
    with 3 have "suffix s a" by simp
    then show ?thesis by (simp add: suffix_imp_sublist)
  qed
qed

lemma sublist_skip:
  "m \<notin> set u \<Longrightarrow> sublist (m # g) (u @ v) \<Longrightarrow> sublist (m # g) v"
  by (induction u) (auto simp: sublist_Cons_right)

lemma prefix_copied:
  assumes "sep \<noteq> []"
  shows "x \<notin> set s \<Longrightarrow> prefix s (replaceAll sep (x # new) t) \<Longrightarrow> prefix s t"
proof (induction t arbitrary: s)
  case Nil
  then show ?case using assms by simp
next
  case (Cons c cs)
  show ?case
  proof (cases "prefix sep (c # cs)")
    case True
    with Cons.prems assms have "prefix s (x # new @ replaceAll sep (x # new) (drop (length sep) (c # cs)))"
      by (simp add: replaceAll_hit)
    with Cons.prems(1) have "s = []" by (cases s) auto
    then show ?thesis by simp
  next
    case False
    with Cons.prems assms have p: "prefix s (c # replaceAll sep (x # new) cs)"
      by (simp add: replaceAll_miss)
    show ?thesis
    proof (cases s)
      case Nil
      then show ?thesis by simp
    next
      case (Cons d s')
      with p Cons.prems(1) Cons.IH [of s'] show ?thesis by auto
    qed
  qed
qed

lemma neverAtMiss_suffix: "neverAtMiss sep s t \<Longrightarrow> suffix r t \<Longrightarrow> neverAtMiss sep s r"
  unfolding neverAtMiss_def using suffix_order.trans by blast

lemma neverAtMiss_self: "neverAtMiss sep s t \<Longrightarrow> \<not> prefix sep t \<Longrightarrow> \<not> prefix s t"
  unfolding neverAtMiss_def by blast

text \<open>
  The core of the argument: \<open>s\<close> starts with the marker \<open>m\<close> and holds no \<open>x\<close>; the
  replacement text is \<open>x\<close>, a stretch without \<open>m\<close>, the glyph \<open>c\<close>, \<open>x\<close> again and a stretch
  without \<open>m\<close>. If \<open>s\<close> does not occur in \<open>c\<close> and never starts where the scan copies a
  character, it does not occur in the result.
\<close>

lemma replaceAll_free_core:
  assumes "sep \<noteq> []" and "x \<notin> set (m # g)" and "m \<notin> set pre" and "m \<notin> set post"
    and "\<not> sublist (m # g) c"
  shows "neverAtMiss sep (m # g) t
         \<Longrightarrow> \<not> sublist (m # g) (replaceAll sep (x # pre @ c @ x # post) t)"
proof (induction t rule: length_induct)
  case (1 t)
  let ?new = "x # pre @ c @ x # post"
  show ?case
  proof (cases t)
    case Nil
    then show ?thesis using assms(1) by simp
  next
    case (Cons d ds)
    show ?thesis
    proof (cases "prefix sep (d # ds)")
      case True
      let ?r = "drop (length sep) (d # ds)"
      have sr: "suffix ?r t" using Cons by (simp add: suffix_drop)
      have lt: "length ?r < length t" using Cons assms(1) by simp
      have "neverAtMiss sep (m # g) ?r"
        using 1(2) sr by (rule neverAtMiss_suffix)
      with 1(1) lt have ih: "\<not> sublist (m # g) (replaceAll sep ?new ?r)"
        by simp
      have eq: "replaceAll sep ?new t = [] @ x # ((pre @ c) @ x # (post @ replaceAll sep ?new ?r))"
        using True assms(1) Cons by (simp add: replaceAll_hit)
      show ?thesis
      proof
        assume "sublist (m # g) (replaceAll sep ?new t)"
        then have "sublist (m # g) [] \<or> sublist (m # g) ((pre @ c) @ x # (post @ replaceAll sep ?new ?r))"
          unfolding eq using assms(2) by (rule sublist_cut)
        then have "sublist (m # g) ((pre @ c) @ x # (post @ replaceAll sep ?new ?r))"
          by simp
        then have "sublist (m # g) (pre @ c) \<or> sublist (m # g) (post @ replaceAll sep ?new ?r)"
          using assms(2) by (rule sublist_cut)
        moreover have "sublist (m # g) (pre @ c) \<Longrightarrow> sublist (m # g) c"
          using assms(3) by (rule sublist_skip)
        moreover have "sublist (m # g) (post @ replaceAll sep ?new ?r)
                       \<Longrightarrow> sublist (m # g) (replaceAll sep ?new ?r)"
          using assms(4) by (rule sublist_skip)
        ultimately show False
          using assms(5) ih by blast
      qed
    next
      case False
      have sd: "suffix ds t" using Cons by (simp add: suffix_ConsI)
      have "neverAtMiss sep (m # g) ds"
        using 1(2) sd by (rule neverAtMiss_suffix)
      with 1(1) Cons have ih: "\<not> sublist (m # g) (replaceAll sep ?new ds)"
        by simp
      have eq: "replaceAll sep ?new t = d # replaceAll sep ?new ds"
        using False assms(1) Cons by (simp add: replaceAll_miss)
      from False Cons have "\<not> prefix sep t" by simp
      with 1(2) have "\<not> prefix (m # g) t"
        by (rule neverAtMiss_self)
      moreover have "prefix (m # g) (replaceAll sep ?new t) \<Longrightarrow> prefix (m # g) t"
        using assms(1) assms(2) by (rule prefix_copied)
      ultimately have "\<not> prefix (m # g) (d # replaceAll sep ?new ds)"
        unfolding eq by blast
      with ih show ?thesis
        unfolding eq by (simp only: sublist_Cons_right simp_thms)
    qed
  qed
qed

lemma replaceAll_establishes:
  assumes "x \<notin> set (m # g)" and "m \<notin> set pre" and "m \<notin> set post"
  shows "\<not> sublist (m # g) (replaceAll (m # g) (x # pre @ g @ x # post) t)"
proof -
  have "\<not> sublist (m # g) g"
    using sublist_length_le [of "m # g" g] by auto
  moreover have "neverAtMiss (m # g) (m # g) t"
    by (simp add: neverAtMiss_def)
  moreover have "m # g \<noteq> []" by simp
  ultimately show ?thesis
    using assms replaceAll_free_core [of "m # g" x m g pre post g t] by blast
qed

lemma replaceAll_preserves:
  assumes "sep \<noteq> []" and "x \<notin> set (m # g)" and "m \<notin> set pre" and "m \<notin> set post"
    and "sublist c sep" and "\<not> sublist (m # g) t"
  shows "\<not> sublist (m # g) (replaceAll sep (x # pre @ c @ x # post) t)"
proof (cases "sublist sep t")
  case True
  with assms(5) have "sublist c t" by (rule sublist_order.order.trans)
  with assms(6) have nc: "\<not> sublist (m # g) c"
    using sublist_order.order.trans by blast
  have "\<not> prefix (m # g) t'" if "suffix t' t" for t'
  proof
    assume "prefix (m # g) t'"
    then have "sublist (m # g) t'" by (rule prefix_imp_sublist)
    moreover from that have "sublist t' t" by (rule suffix_imp_sublist)
    ultimately have "sublist (m # g) t" by (rule sublist_order.order.trans)
    with assms(6) show False by simp
  qed
  then have "neverAtMiss sep (m # g) t"
    by (simp add: neverAtMiss_def)
  then show ?thesis
    using assms(1-4) nc replaceAll_free_core [of sep x m g pre post c t] by blast
next
  case False
  then show ?thesis
    using assms(1,6) by (simp add: replaceAll_absent)
qed

section \<open>Color escapes and the category passes\<close>

lemma showNat_digits: "set (showNat n) \<subseteq> set ''0123456789''"
proof (induction n rule: showNat.induct)
  case (1 n)
  have d: "''0123456789'' ! k \<in> set ''0123456789''" if "k < 10" for k
    using that by (intro nth_mem) simp
  show ?case
  proof (cases "n < 10")
    case True
    then show ?thesis using d [of n] by (subst showNat.simps) simp
  next
    case False
    have "n mod 10 < 10" by simp
    with False 1 d [of "n mod 10"] show ?thesis
      by (subst showNat.simps) (simp del: showNat.simps)
  qed
qed

lemma format_shape:
  "format (Color r g b) c
   = esc # (''[38;2;'' @ showNat r @ '';'' @ showNat g @ '';'' @ showNat b @ ''m'') @ c @ esc # ''[0m''"
  by (simp add: format_def reset_def del: showNat.simps)

lemma ansi_prefix_chars:
  "set (''[38;2;'' @ showNat r @ '';'' @ showNat g @ '';'' @ showNat b @ ''m'') \<subseteq> set ansiChars"
proof -
  have d: "set ''0123456789'' \<subseteq> set ansiChars"
    by (simp add: ansiChars_def)
  have n: "set (showNat k) \<subseteq> set ansiChars" for k
    using showNat_digits d by (rule subset_trans)
  have a: "set ''[38;2;'' \<subseteq> set ansiChars" "set '';'' \<subseteq> set ansiChars"
    "set ''m'' \<subseteq> set ansiChars"
    by (simp_all add: ansiChars_def)
  show ?thesis
    unfolding set_append by (intro Un_least a n)
qed

lemma set_format: "set (format color c) \<subseteq> insert esc (set ansiChars \<union> set c)"
proof (cases color)
  case (Color r g b)
  have "set ''[0m'' \<subseteq> set ansiChars" by (simp add: ansiChars_def)
  with ansi_prefix_chars [of r g b] show ?thesis
    unfolding Color format_shape by (auto simp del: showNat.simps)
qed

text \<open>Every colored glyph is \<open>esc\<close>, a stretch of escape characters, the glyph, \<open>esc\<close>, a stretch.\<close>

lemma format_parts:
  "\<exists>pre post. format color c = esc # pre @ c @ esc # post
               \<and> set pre \<subseteq> set ansiChars \<and> set post \<subseteq> set ansiChars"
proof (cases color)
  case (Color r g b)
  have "set ''[0m'' \<subseteq> set ansiChars" by (simp add: ansiChars_def)
  with ansi_prefix_chars [of r g b] show ?thesis
    unfolding Color format_shape by blast
qed

lemma marker_not_ansi: "m \<in> set ''ygb'' \<Longrightarrow> m \<notin> set ansiChars"
  by (auto simp: ansiChars_def)

lemma marker_not_esc: "m \<in> set ''ygb'' \<Longrightarrow> m \<noteq> esc"
  by (auto simp: esc_def)

lemma light_shape:
  assumes "m \<in> set ''ygb''" and "m \<notin> set glyph"
  shows "\<exists>l. generateColor r glyph = esc # l \<and> m \<notin> set l"
proof -
  obtain pre post where p: "generateColor r glyph = esc # pre @ glyph @ esc # post"
    "set pre \<subseteq> set ansiChars" "set post \<subseteq> set ansiChars"
    unfolding generateColor_def using format_parts by blast
  have "m \<notin> set (pre @ glyph @ esc # post)"
    using assms p(2,3) marker_not_ansi [OF assms(1)] marker_not_esc [OF assms(1)] by auto
  with p(1) show ?thesis by blast
qed

lemma pass_preserves:
  assumes "m \<in> set ''ygb''" and "esc \<notin> set (m # g)" and "charPrefix \<noteq> []"
  shows "\<not> sublist (m # g) t \<Longrightarrow> \<not> sublist (m # g) (applyColorToChars t color charPrefix chars)"
proof (induction chars arbitrary: t)
  case Nil
  then show ?case by simp
next
  case (Cons c chars)
  obtain pre post where p: "format color c = esc # pre @ c @ esc # post"
    "set pre \<subseteq> set ansiChars" "set post \<subseteq> set ansiChars"
    using format_parts by blast
  have n: "m \<notin> set pre" "m \<notin> set post"
    using p(2,3) marker_not_ansi [OF assms(1)] by auto
  have ne: "charPrefix @ c \<noteq> []" using assms(3) by simp
  have sc: "sublist c (charPrefix @ c)" by (simp add: sublist_appendI)
  have "\<not> sublist (m # g) (replaceAll (charPrefix @ c) (esc # pre @ c @ esc # post) t)"
    using ne assms(2) n sc Cons.prems by (rule replaceAll_preserves)
  then show ?case
    unfolding applyColorToChars_Cons p(1) by (rule Cons.IH)
qed

lemma pass_establishes:
  assumes "m \<in> set ''ygb''" and "esc \<notin> set (m # g)"
  shows "g \<in> set chars \<Longrightarrow> \<not> sublist (m # g) (applyColorToChars t color [m] chars)"
proof (induction chars arbitrary: t)
  case Nil
  then show ?case by simp
next
  case (Cons c chars)
  show ?case
  proof (cases "c = g")
    case True
    obtain pre post where p: "format color g = esc # pre @ g @ esc # post"
      "set pre \<subseteq> set ansiChars" "set post \<subseteq> set ansiChars"
      using format_parts by blast
    have n: "m \<notin> set pre" "m \<notin> set post"
      using p(2,3) marker_not_ansi [OF assms(1)] by auto
    have "\<not> sublist (m # g) (replaceAll (m # g) (esc # pre @ g @ esc # post) t)"
      using assms(2) n by (rule replaceAll_establishes)
    then have "\<not> sublist (m # g) (replaceAll ([m] @ c) (format color c) t)"
      using True p(1) by simp
    then have "\<not> sublist (m # g)
        (applyColorToChars (replaceAll ([m] @ c) (format color c) t) color [m] chars)"
      by (rule pass_preserves [OF assms, rotated]) simp
    then show ?thesis
      unfolding applyColorToChars_Cons .
  next
    case False
    with Cons.prems have "g \<in> set chars" by simp
    then show ?thesis
      unfolding applyColorToChars_Cons by (rule Cons.IH)
  qed
qed

lemma marker_strings: "''y'' = [CHR ''y'']" "''g'' = [CHR ''g'']" "''b'' = [CHR ''b'']"
  by simp_all

lemma paint_free_yellow:
  assumes "c \<in> set chars" and "esc \<notin> set c"
  shows "\<not> sublist (''y'' @ c) (paint chars base)"
proof -
  have m: "CHR ''y'' \<in> set ''ygb''" by simp
  have e: "esc \<notin> set (CHR ''y'' # c)" using assms(2) by (simp add: esc_def)
  have "\<not> sublist (CHR ''y'' # c) (applyColorToChars base yellow [CHR ''y''] chars)"
    using m e assms(1) by (rule pass_establishes)
  then have "\<not> sublist (CHR ''y'' # c)
               (applyColorToChars (applyColorToChars base yellow [CHR ''y''] chars)
                  green ''g'' [''/'', [bslash], ''=''])"
    by (rule pass_preserves [OF m e, rotated]) simp
  then have "\<not> sublist (CHR ''y'' # c)
               (applyColorToChars
                 (applyColorToChars (applyColorToChars base yellow [CHR ''y''] chars)
                    green ''g'' [''/'', [bslash], ''=''])
               brown ''b'' [''|'', ''_''])"
    by (rule pass_preserves [OF m e, rotated]) simp
  then show ?thesis
    by (simp add: paint_def)
qed

lemma paint_free_green:
  assumes "c \<in> set [''/'', [bslash], ''='']"
  shows "\<not> sublist (''g'' @ c) (paint chars base)"
proof -
  have m: "CHR ''g'' \<in> set ''ygb''" by simp
  have e: "esc \<notin> set (CHR ''g'' # c)" using assms by (auto simp: esc_def bslash_def)
  have "\<not> sublist (CHR ''g'' # c)
          (applyColorToChars (applyColorToChars base yellow ''y'' chars)
             green [CHR ''g''] [''/'', [bslash], ''=''])"
    using m e assms by (rule pass_establishes)
  then have "\<not> sublist (CHR ''g'' # c)
               (applyColorToChars
                 (applyColorToChars (applyColorToChars base yellow ''y'' chars)
                    green [CHR ''g''] [''/'', [bslash], ''=''])
               brown ''b'' [''|'', ''_''])"
    by (rule pass_preserves [OF m e, rotated]) simp
  then show ?thesis
    by (simp add: paint_def)
qed

lemma paint_free_brown:
  assumes "c \<in> set [''|'', ''_'']"
  shows "\<not> sublist (''b'' @ c) (paint chars base)"
proof -
  have m: "CHR ''b'' \<in> set ''ygb''" by simp
  have e: "esc \<notin> set (CHR ''b'' # c)" using assms by (auto simp: esc_def)
  have "\<not> sublist (CHR ''b'' # c)
          (applyColorToChars
             (applyColorToChars (applyColorToChars base yellow ''y'' chars)
                green ''g'' [''/'', [bslash], ''=''])
             brown [CHR ''b''] [''|'', ''_''])"
    using m e assms by (rule pass_establishes)
  then show ?thesis
    by (simp add: paint_def)
qed

lemma applyColors_paint:
  "yellowChars options = Inr chars \<Longrightarrow> applyColors options base = Inr (paint chars base)"
  by (simp add: applyColors_def paint_def)

lemma ctree_stages:
  "ctree newOptions rnd =
     (case mergeOptions newOptions of
        Inl e \<Rightarrow> Inl e
      | Inr options \<Rightarrow>
          (case substituted options of
             Inl e \<Rightarrow> Inl e
           | Inr input2 \<Rightarrow>
               (case applyColorsToLights (getProp options ''balls'') rnd input2 of
                  Inl e \<Rightarrow> Inl e
                | Inr lit \<Rightarrow> applyColors options lit)))"
  by (simp add: ctree_def substituted_def split: sum.splits)

lemma ctree_Inr_paint:
  assumes "ctree newOptions rnd = Inr out" and "mergeOptions newOptions = Inr options"
    and "yellowChars options = Inr chars"
  shows "\<exists>lit. out = paint chars lit"
  using assms by (auto simp: ctree_stages applyColors_paint split: sum.splits)

section \<open>The output as pieces with lights woven in\<close>

lemma paint_weave:
  assumes "list_all (\<lambda>c. esc \<notin> set c) chars"
    and "list_all (\<lambda>m. m \<notin> set glyph) ''ygb''"
  shows "paint chars (weave ps (\<lambda>k. generateColor (rnd k) glyph) k)
         = weave (map (paint chars) ps) (\<lambda>k. generateColor (rnd k) glyph) k"
proof -
  let ?f = "\<lambda>k. generateColor (rnd k) glyph"
  have l: "\<exists>l. ?f i = esc # l \<and> m \<notin> set l" if "m \<in> set ''ygb''" for m i
    using that assms(2) by (intro light_shape) (auto simp: list_all_iff)
  have y: "applyColorToChars (weave qs ?f k) yellow ''y'' chars
           = weave (map (\<lambda>p. applyColorToChars p yellow ''y'' chars) qs) ?f k" for qs
    using assms(1) l [of "CHR ''y''"]
    by (intro applyColorToChars_weave [where x = esc]) (auto simp: list_all_iff esc_def)
  have g: "applyColorToChars (weave qs ?f k) green ''g'' [''/'', [bslash], ''='']
           = weave (map (\<lambda>p. applyColorToChars p green ''g'' [''/'', [bslash], ''='']) qs) ?f k" for qs
    using l [of "CHR ''g''"]
    by (intro applyColorToChars_weave [where x = esc]) (auto simp: esc_def bslash_def)
  have b: "applyColorToChars (weave qs ?f k) brown ''b'' [''|'', ''_'']
           = weave (map (\<lambda>p. applyColorToChars p brown ''b'' [''|'', ''_'']) qs) ?f k" for qs
    using l [of "CHR ''b''"]
    by (intro applyColorToChars_weave [where x = esc]) (auto simp: esc_def)
  show ?thesis
    unfolding paint_def by (simp only: y g b map_map comp_def)
qed

lemma ctree_woven:
  assumes "mergeOptions newOptions = Inr options"
    and "getProp options ''balls'' = JString glyph"
    and "substituted options = Inr t"
    and "regExpNew (''('' @ [bslash] @ ''d+)'' @ glyph @ ''?'') = Inr regex"
    and "yellowChars options = Inr chars"
    and "list_all (\<lambda>c. esc \<notin> set c) chars"
    and "list_all (\<lambda>m. m \<notin> set glyph) ''ygb''"
  shows "ctree newOptions rnd
         = Inr (weave (map (paint chars) (pieces regex t t)) (\<lambda>k. generateColor (rnd k) glyph) 0)"
proof -
  have "applyColorsToLights (JString glyph) rnd t
        = Inr (weave (pieces regex t t) (\<lambda>k. generateColor (rnd k) glyph) 0)"
    using assms(4) by (simp add: applyColorsToLights_def replaceG_weave)
  then show ?thesis
    using assms(1,2,3,5) paint_weave [OF assms(6,7)]
    by (simp add: ctree_stages applyColors_paint)
qed

lemma set_paint:
  "set (paint chars p)
   \<subseteq> set p \<union> insert esc (set ansiChars \<union> (\<Union>c\<in>set chars. set c) \<union> set ''/=|_'' \<union> {bslash})"
proof -
  define G where "G = (\<Union>c\<in>set chars. set c) \<union> set ''/=|_'' \<union> {bslash}"
  define T where "T = set p \<union> insert esc (set ansiChars \<union> G)"
  let ?y = "applyColorToChars p yellow ''y'' chars"
  let ?g = "applyColorToChars ?y green ''g'' [''/'', [bslash], ''='']"
  have f: "set (format color c) \<subseteq> T" if "set c \<subseteq> G" for color c
    using set_format [of color c] that unfolding T_def by blast
  have "set c \<subseteq> G" if "c \<in> set chars" for c
    using that unfolding G_def by blast
  then have fy: "(\<Union>c\<in>set chars. set (format yellow c)) \<subseteq> T"
    using f by blast
  have "set c \<subseteq> G" if "c \<in> set [''/'', [bslash], ''='']" for c
    using that unfolding G_def by auto
  then have fg: "(\<Union>c\<in>set [''/'', [bslash], ''='']. set (format green c)) \<subseteq> T"
    using f by blast
  have "set c \<subseteq> G" if "c \<in> set [''|'', ''_'']" for c
    using that unfolding G_def by auto
  then have fb: "(\<Union>c\<in>set [''|'', ''_'']. set (format brown c)) \<subseteq> T"
    using f by blast
  have p: "set p \<subseteq> T" unfolding T_def by blast
  have "set ?y \<subseteq> set p \<union> (\<Union>c\<in>set chars. set (format yellow c))"
    by (rule set_applyColorToChars) simp
  with p fy have y: "set ?y \<subseteq> T" by blast
  have "set ?g \<subseteq> set ?y \<union> (\<Union>c\<in>set [''/'', [bslash], ''='']. set (format green c))"
    by (rule set_applyColorToChars) simp
  with y fg have g: "set ?g \<subseteq> T" by blast
  have "set (paint chars p) \<subseteq> set ?g \<union> (\<Union>c\<in>set [''|'', ''_'']. set (format brown c))"
    unfolding paint_def by (rule set_applyColorToChars) simp
  with g fb have "set (paint chars p) \<subseteq> T" by blast
  then show ?thesis
    unfolding T_def G_def by (simp only: Un_assoc)
qed

lemma notin_paint:
  assumes "x \<notin> set p" and "x \<noteq> esc" and "x \<notin> set ansiChars"
    and "list_all (\<lambda>c. x \<notin> set c) chars" and "x \<notin> set ''/=|_''" and "x \<noteq> bslash"
  shows "x \<notin> set (paint chars p)"
proof
  assume "x \<in> set (paint chars p)"
  with set_paint [of chars p]
  have "x \<in> set p \<union> insert esc (set ansiChars \<union> (\<Union>c\<in>set chars. set c) \<union> set ''/=|_'' \<union> {bslash})"
    by (rule subsetD)
  moreover have "x \<notin> (\<Union>c\<in>set chars. set c)"
    using assms(4) by (simp add: list_all_iff)
  ultimately show False
    using assms(1,2,3,5,6) by blast
qed

lemma notin_light:
  assumes "x \<noteq> esc" and "x \<notin> set ansiChars" and "x \<notin> set glyph"
  shows "x \<notin> set (generateColor r glyph)"
  using assms set_format [of "pickColor (getRandomInt r 6)" glyph]
  unfolding generateColor_def by blast

lemma weave_prefix: "ps \<noteq> [] \<Longrightarrow> prefix (hd ps) (weave ps f k)"
  by (induction ps f k rule: weave.induct) auto

lemma count_weave:
  assumes "\<And>i. length (filter (\<lambda>x. x = c) (f i)) = 1"
  shows "length ps = Suc n \<Longrightarrow> list_all (\<lambda>p. c \<notin> set p) ps
         \<Longrightarrow> length (filter (\<lambda>x. x = c) (weave ps f k)) = n"
proof (induction ps arbitrary: n k)
  case Nil
  then show ?case by simp
next
  case (Cons p ps)
  from Cons.prems(2) have p: "filter (\<lambda>x. x = c) p = []"
    by (auto simp: filter_empty_conv)
  show ?case
  proof (cases ps)
    case Nil
    with Cons.prems p show ?thesis by simp
  next
    case (Cons q qs)
    with Cons.prems obtain n' where n': "n = Suc n'" "length ps = Suc n'"
      by (cases n) auto
    from Cons.prems(2) have "list_all (\<lambda>p. c \<notin> set p) ps" by simp
    with Cons.IH n'(2) have "length (filter (\<lambda>x. x = c) (weave ps f (Suc k))) = n'"
      by blast
    with p assms [of k] n'(1) Cons show ?thesis by simp
  qed
qed

lemma count_light:
  assumes "x \<noteq> esc" and "x \<notin> set ansiChars"
  shows "length (filter (\<lambda>c. c = x) (generateColor r [x])) = 1"
proof -
  obtain pre post where p: "generateColor r [x] = esc # pre @ [x] @ esc # post"
    "set pre \<subseteq> set ansiChars" "set post \<subseteq> set ansiChars"
    unfolding generateColor_def using format_parts by blast
  have "filter (\<lambda>c. c = x) pre = []" "filter (\<lambda>c. c = x) post = []"
    using p(2,3) assms(2) by (auto simp: filter_empty_conv)
  then show ?thesis
    using assms(1) unfolding p(1) by simp
qed

section \<open>Substitution is total; the light pass is not\<close>

lemma typeof_string: "typeofJS v = ''string'' \<Longrightarrow> \<exists>s. v = JString s"
  by (cases v) simp_all

lemma modifyLoop_total:
  "list_all (\<lambda>kv. typeofJS (snd kv) = ''string'') es \<Longrightarrow> \<exists>t. modifyLoop s es = Inr t"
proof (induction es arbitrary: s)
  case Nil
  then show ?case by simp
next
  case (Cons e es)
  obtain k v where e: "e = (k, v)" by (cases e)
  with Cons.prems obtain x where "v = JString x"
    using typeof_string by auto
  with Cons e show ?case by simp
qed

lemma substituted_total:
  assumes "getProp options ''star'' = JObject kvs"
    and "list_all (\<lambda>kv. typeofJS (snd kv) = ''string'') kvs"
    and "getProp options ''balls'' = JString b"
    and "getProp options ''stars'' = JString s"
  shows "\<exists>t. substituted options = Inr t"
proof -
  have "list_all (\<lambda>kv. typeofJS (snd kv) = ''string'') (ownEntries kvs)"
    using assms(2) by (simp add: list_all_iff)
  then obtain t1 where t1: "modifyLoop input0 (ownEntries kvs) = Inr t1"
    using modifyLoop_total by blast
  have "ownEntries [(''BALL'', JString b), (''STAR'', JString s)]
        = [(''BALL'', JString b), (''STAR'', JString s)]"
    by (simp add: ownEntries_def isArrayIndex_def isDigit_def)
  then show ?thesis
    using assms(1,3,4) t1 by (simp add: substituted_def modifyTemplate_def)
qed

text \<open>
  Claim C6, at the input \<open>{balls: ")"}\<close>: every leaf is text and merging succeeds, and
  the two substitution calls return; then the light pass builds its regular expression
  from the pattern \<open>(\d+))?\<close>, whose second closing parenthesis matches nothing, and
  \<open>new RegExp\<close> throws a \<open>SyntaxError\<close>: the invocation raises an error and returns no
  string.
\<close>

theorem ctree_syntax_error:
  "ctree [(''balls'', JString '')'')] rnd = Inl SyntaxError"
proof -
  let ?star = "[(''TOP'', JString ''|''), (''TREE_STAR'', JString ''+''),
                (''LEFT'', JString ''-''), (''RIGHT'', JString ''-''),
                (''BOTTOM'', JString ''A'')]"
  let ?options = "[(''star'', JObject ?star), (''balls'', JString '')''), (''stars'', JString ''*'')]"
  have m: "mergeOptions [(''balls'', JString '')'')] = Inr ?options"
    by code_simp
  have "\<exists>t. substituted ?options = Inr t"
    by (rule substituted_total [where kvs = ?star and b = "'')''" and s = "''*''"])
       (simp_all add: getProp_def)
  then obtain t where t: "substituted ?options = Inr t" ..
  have r: "regExpNew (''('' @ [bslash] @ ''d+)'' @ '')'' @ ''?'') = Inl SyntaxError"
    by code_simp
  have "applyColorsToLights (JString '')'') rnd t = Inl SyntaxError"
    using r by (simp add: applyColorsToLights_def)
  then show ?thesis
    using m t by (simp add: ctree_stages getProp_def)
qed

section \<open>The random color is one of the palette\<close>

declare excess.simps [simp del]

lemma floorD_val: "floorD d = \<lfloor>valD d\<rfloor>"
proof (cases d)
  case (Dbl m e)
  show ?thesis
  proof (cases "0 \<le> e")
    case True
    then have "valD d = of_int (m * 2 ^ nat e)"
      by (simp add: Dbl power_int_def)
    then have "\<lfloor>valD d\<rfloor> = m * 2 ^ nat e"
      by (simp only: floor_of_int)
    then show ?thesis using True by (simp add: Dbl del: valD.simps)
  next
    case False
    then have "valD d = real_of_int m / real_of_int (2 ^ nat (- e))"
      by (simp add: Dbl power_int_def field_simps)
    then have "\<lfloor>valD d\<rfloor> = m div 2 ^ nat (- e)"
      by (simp only: floor_divide_of_int_eq)
    then show ?thesis using False by (simp add: Dbl del: valD.simps)
  qed
qed

lemma excess_le: "m < 2 ^ (53 + j) \<Longrightarrow> excess m \<le> j"
proof (induction j arbitrary: m)
  case 0
  then show ?case by (simp add: excess.simps)
next
  case (Suc j)
  from Suc.prems have "m < 2 * 2 ^ (53 + j)" by (simp only: add_Suc_right power_Suc)
  then have "m div 2 < 2 ^ (53 + j)" by simp
  then have "excess (m div 2) \<le> j" by (rule Suc.IH)
  then show ?case by (subst excess.simps) simp
qed

text \<open>Rounding to the nearest adds at most half a unit of the last place kept.\<close>

lemma roundShift_le: "2 * (roundShift m s * 2 ^ s) \<le> 2 * m + 2 ^ s"
proof -
  define q r where "q = m div 2 ^ s" and "r = m mod 2 ^ s"
  have m: "m = q * 2 ^ s + r" unfolding q_def r_def by (rule div_mult_mod_eq [symmetric])
  have "0 \<le> r" unfolding r_def by simp
  then show ?thesis
    unfolding roundShift_def Let_def q_def [symmetric] r_def [symmetric]
    by (auto simp: m algebra_simps)
qed

lemma roundShift_zero: "roundShift 0 s = 0"
  by (simp add: roundShift_def)

lemma roundD_six: "roundD 6 0 = Dbl 6 0"
  by (simp add: roundD_def excess.simps roundShift_def)

text \<open>
  A double below 1 is at most \<open>1 - 2 ^ e\<close> for its exponent \<open>e\<close>; six times it is at most
  \<open>6 - 6 * 2 ^ e\<close>, and rounding the product drops at most three bits, so it adds at most
  \<open>4 * 2 ^ e\<close>: the rounded product stays below 6.
\<close>

lemma getRandomInt_range:
  assumes "isDouble random" and "valD random < 1"
  shows "0 \<le> getRandomInt random 6" and "getRandomInt random 6 < 6"
proof -
  obtain m e where r: "random = Dbl m e" by (cases random)
  define s where "s = excess (m * 6)"
  define M where "M = roundShift (m * 6) s"
  from assms(1) have m0: "0 \<le> m" and m53: "m < 2 ^ 53" and e: "- 1074 \<le> e"
    by (simp_all add: r)
  from e have ms: "max s (nat (- 1074 - e)) = s" by simp
  have "timesD random (roundD (int 6) 0) = roundD (m * 6) e"
    by (simp add: r roundD_six)
  also have "\<dots> = Dbl M (e + int s)"
    using ms by (simp add: roundD_def s_def [symmetric] M_def)
  finally have g: "getRandomInt random 6 = \<lfloor>valD (Dbl M (e + int s))\<rfloor>"
    by (simp only: getRandomInt_def floorD_val)
  have "0 \<le> m * 6 div 2 ^ s" using m0 by (simp add: pos_imp_zdiv_nonneg_iff)
  then have "0 \<le> M" by (simp add: M_def roundShift_def Let_def)
  then have "0 \<le> valD (Dbl M (e + int s))" by simp
  then show "0 \<le> getRandomInt random 6" unfolding g by simp
  have "valD (Dbl M (e + int s)) < 6"
  proof (cases "m = 0")
    case True
    then show ?thesis by (simp add: M_def roundShift_zero)
  next
    case False
    with m0 have m1: "1 \<le> m" by simp
    define u :: real where "u = 2 powi e"
    have u: "0 < u" by (simp add: u_def)
    from assms(2) have x: "of_int m * u < 1" by (simp add: r u_def)
    have e0: "e < 0"
    proof (rule ccontr)
      assume "\<not> e < 0"
      then have "1 \<le> u" by (simp add: u_def power_int_def)
      moreover from m1 have "1 \<le> real_of_int m" by simp
      ultimately have "1 * 1 \<le> real_of_int m * u" by (intro mult_mono) simp_all
      with x show False by simp
    qed
    define k where "k = nat (- e)"
    have uk: "u = 1 / 2 ^ k" using e0 by (simp add: u_def power_int_def k_def field_simps)
    from x have "real_of_int m < real_of_int (2 ^ k)" by (simp add: uk field_simps)
    then have "m < 2 ^ k" by (simp only: of_int_less_iff)
    then have "m + 1 \<le> 2 ^ k" by simp
    then have "real_of_int (m + 1) \<le> real_of_int (2 ^ k)" by (simp only: of_int_le_iff)
    then have x1: "of_int m * u \<le> 1 - u" by (simp add: uk field_simps)
    from m53 have "m * 6 < 2 ^ (53 + 3)" by simp
    then have "s \<le> 3" unfolding s_def by (rule excess_le)
    then have "(2::real) ^ s \<le> 2 ^ 3" by (intro power_increasing) simp_all
    then have s8: "(2::real) ^ s \<le> 8" by simp
    have "2 * (M * 2 ^ s) \<le> 2 * (m * 6) + 2 ^ s"
      unfolding M_def by (rule roundShift_le)
    then have "real_of_int (2 * (M * 2 ^ s)) \<le> real_of_int (2 * (m * 6) + 2 ^ s)"
      by (simp only: of_int_le_iff)
    then have "2 * (of_int M * 2 ^ s) \<le> 12 * real_of_int m + 2 ^ s" by simp
    with s8 have "2 * (of_int M * 2 ^ s) \<le> 12 * real_of_int m + 8" by simp
    then have "2 * (of_int M * 2 ^ s) * u \<le> (12 * real_of_int m + 8) * u"
      using u by (intro mult_right_mono) simp_all
    also have "\<dots> = 12 * (of_int m * u) + 8 * u" by (simp add: algebra_simps)
    also have "\<dots> \<le> 12 * (1 - u) + 8 * u" using x1 by simp
    also have "\<dots> < 12" using u by simp
    finally have "of_int M * 2 ^ s * u < 6" by (simp add: mult_ac)
    moreover have "(2::real) powi (e + int s) = 2 powi e * 2 powi int s"
      by (rule power_int_add) simp
    then have "valD (Dbl M (e + int s)) = of_int M * 2 ^ s * u"
      by (simp add: u_def)
    ultimately show ?thesis by (simp only:)
  qed
  then show "getRandomInt random 6 < 6" unfolding g by (simp add: floor_less_iff)
qed

lemma pickColor_palette:
  assumes "0 \<le> selection" and "selection < 6"
  shows "pickColor selection \<in> set palette"
proof -
  from assms have "selection \<in> {0, 1, 2, 3, 4, 5}" by auto
  then show ?thesis by (auto simp: pickColor_def palette_def)
qed

lemma palette_wrapped: "map (\<lambda>c. format c glyph) palette = wrappedInPalette glyph"
  by code_simp

lemma generateColor_wrapped:
  assumes "isDouble random" and "valD random < 1"
  shows "generateColor random glyph \<in> set (wrappedInPalette glyph)"
proof -
  have "pickColor (getRandomInt random 6) \<in> set palette"
    using getRandomInt_range [OF assms] by (rule pickColor_palette)
  then have "generateColor random glyph \<in> set (map (\<lambda>c. format c glyph) palette)"
    by (simp add: generateColor_def)
  then show ?thesis by (simp only: palette_wrapped)
qed

text \<open>
  Claim C9. \<open>Math.random()\<close> returns a double in \<open>[0, 1)\<close>. For every such draw the
  selection \<open>Math.floor(Math.random() * 6)\<close>, with the product rounded as the double
  arithmetic of the language rounds it, is an integer from 0 to 5; so the color picked is
  one of the six palette colors and never the white of the \<open>default\<close> branch, and the
  light is the glyph between the escape sequence of a palette color and the reset
  sequence, never the glyph in white.
\<close>

theorem generateColor_in_palette:
  assumes "isDouble random" and "valD random < 1"
  shows "0 \<le> getRandomInt random 6 \<and> getRandomInt random 6 < 6
         \<and> pickColor (getRandomInt random 6) \<in> set palette
         \<and> pickColor (getRandomInt random 6) \<noteq> Color 255 255 255
         \<and> generateColor random input \<in> set (wrappedInPalette input)
         \<and> generateColor random input \<noteq> esc # ''[38;2;255;255;255m'' @ input @ esc # ''[0m''"
proof -
  note r = getRandomInt_range [OF assms]
  have p: "pickColor (getRandomInt random 6) \<in> set palette"
    using r by (rule pickColor_palette)
  moreover have "Color 255 255 255 \<notin> set palette"
    by (simp add: palette_def)
  ultimately have n: "pickColor (getRandomInt random 6) \<noteq> Color 255 255 255"
    by metis
  have w: "generateColor random input \<in> set (wrappedInPalette input)"
    using assms by (rule generateColor_wrapped)
  have "esc # ''[38;2;255;255;255m'' @ input @ esc # ''[0m'' \<notin> set (wrappedInPalette input)"
    by (simp add: wrappedInPalette_def)
  with w have "generateColor random input \<noteq> esc # ''[38;2;255;255;255m'' @ input @ esc # ''[0m''"
    by metis
  with r p n w show ?thesis by simp
qed

text \<open>
  The draw 0.8333333333333333 is the double \<open>7505999378950826 * 2 ^ -53\<close>. Six times it
  is \<open>5 - 2 ^ -51\<close> exactly, half way between two doubles, and rounds to 5: the selection
  is 5, light green (the exact product would give 4).
\<close>

theorem generateColor_in_palette_witness:
  "isDouble (Dbl 7505999378950826 (- 53)) \<and> valD (Dbl 7505999378950826 (- 53)) < 1
   \<and> getRandomInt (Dbl 7505999378950826 (- 53)) 6 = 5
   \<and> generateColor (Dbl 7505999378950826 (- 53)) ''O'' \<in> set (wrappedInPalette ''O'')
   \<and> generateColor (Dbl 7505999378950826 (- 53)) ''O'' = esc # ''[38;2;100;255;24mO'' @ esc # ''[0m''"
proof -
  have d: "isDouble (Dbl 7505999378950826 (- 53))" by simp
  have v: "valD (Dbl 7505999378950826 (- 53)) < 1" by (simp add: power_int_minus)
  have g: "getRandomInt (Dbl 7505999378950826 (- 53)) 6 = 5" by code_simp
  have c: "generateColor (Dbl 7505999378950826 (- 53)) ''O'' = esc # ''[38;2;100;255;24mO'' @ esc # ''[0m''"
    by code_simp
  from generateColor_in_palette [OF d v, of "''O''"] d v g c show ?thesis by simp
qed

section \<open>Option merging is a shallow overlay\<close>

lemma ownEntries_distinct:
  assumes "distinct (map fst kvs)"
  shows "distinct (map fst (ownEntries kvs))"
proof -
  from assms have d: "distinct kvs" and i: "inj_on fst (set kvs)"
    by (simp_all add: distinct_map)
  have "distinct (ownEntries kvs)"
    using d by (auto simp: ownEntries_def)
  with i show ?thesis
    by (simp add: distinct_map)
qed

lemma map_of_ownEntries:
  assumes "distinct (map fst kvs)"
  shows "map_of (ownEntries kvs) = map_of kvs"
proof (rule ext)
  fix k
  show "map_of (ownEntries kvs) k = map_of kvs k"
  proof (cases "map_of kvs k")
    case None
    then have "k \<notin> fst ` set kvs" by (simp add: map_of_eq_None_iff)
    then have "map_of (ownEntries kvs) k = None" by (simp add: map_of_eq_None_iff)
    with None show ?thesis by simp
  next
    case (Some v)
    then have "(k, v) \<in> set (ownEntries kvs)" using assms by simp
    then have "map_of (ownEntries kvs) k = Some v"
      using ownEntries_distinct [OF assms] by simp
    with Some show ?thesis by simp
  qed
qed

lemma map_of_fold_update:
  "map_of (fold (\<lambda>kv. AList.update (fst kv) (snd kv)) es t) = map_of t ++ map_of (rev es)"
proof (induction es arbitrary: t)
  case Nil
  show ?case by simp
next
  case (Cons e es)
  have "map_of (fold (\<lambda>kv. AList.update (fst kv) (snd kv)) (e # es) t)
        = map_of (AList.update (fst e) (snd e) t) ++ map_of (rev es)"
    using Cons by simp
  also have "\<dots> = (map_of t)(fst e \<mapsto> snd e) ++ map_of (rev es)"
    by (simp add: update_conv')
  also have "\<dots> = map_of t ++ map_of (rev (e # es))"
    by (cases e) (simp add: map_add_upd_left  fun_eq_iff map_add_def split: option.splits)
  finally show ?case .
qed

lemma map_of_rev_distinct:
  "distinct (map fst es) \<Longrightarrow> map_of (rev es) = map_of es"
  by (rule map_of_inject_set [THEN iffD2]) (simp_all add: rev_map [symmetric])

lemma map_of_spread:
  assumes "distinct (map fst source)"
  shows "map_of (spread source target) = map_of target ++ map_of source"
  unfolding spread_def map_of_fold_update
  using assms by (simp add: map_of_rev_distinct ownEntries_distinct map_of_ownEntries)

lemma spread_defaults: "spread defaultOptions [] = defaultOptions"
  by code_simp

lemma mergeOptions_Inr:
  "mergeOptions newOptions = Inr merged \<Longrightarrow> merged = spread newOptions defaultOptions"
  by (auto simp: mergeOptions_def Let_def spread_defaults split: option.splits)

text \<open>
  Claim C3. When merging succeeds, every top-level key the caller supplies carries the
  caller's value in the merged options, whole, and every other key carries the built-in
  default: \<open>star\<close> with \<open>TOP\<close> \<open>|\<close>, \<open>TREE_STAR\<close> \<open>+\<close>, \<open>LEFT\<close> \<open>-\<close>, \<open>RIGHT\<close> \<open>-\<close>,
  \<open>BOTTOM\<close> \<open>A\<close>; \<open>balls\<close> \<open>O\<close>; \<open>stars\<close> \<open>*\<close>. In particular a partial \<open>star\<close> object of the
  caller replaces the default \<open>star\<close> object: no field of the default is filled in. (The
  caller's object has distinct keys, as every object has.)
\<close>

theorem mergeOptions_shallow:
  assumes "distinct (map fst newOptions)" and "mergeOptions newOptions = Inr merged"
  shows "map_of merged key =
           (case map_of newOptions key of
              Some v \<Rightarrow> Some v
            | None \<Rightarrow> map_of defaultOptions key)
         \<and> defaultOptions =
             [(''star'', JObject [(''TOP'', JString ''|''), (''TREE_STAR'', JString ''+''),
                                  (''LEFT'', JString ''-''), (''RIGHT'', JString ''-''),
                                  (''BOTTOM'', JString ''A'')]),
              (''balls'', JString ''O''),
              (''stars'', JString ''*'')]"
proof -
  from assms(2) have "merged = spread newOptions defaultOptions"
    by (rule mergeOptions_Inr)
  with assms(1) have "map_of merged = map_of defaultOptions ++ map_of newOptions"
    by (simp add: map_of_spread)
  then have "map_of merged key =
           (case map_of newOptions key of
              Some v \<Rightarrow> Some v
            | None \<Rightarrow> map_of defaultOptions key)"
    by (simp add: map_add_def)
  then show ?thesis
    by (simp only: defaultOptions_def [symmetric] simp_thms)
qed

theorem mergeOptions_shallow_witness:
  "distinct (map fst [(''star'', JObject [(''TOP'', JString ''^'')])])
   \<and> mergeOptions [(''star'', JObject [(''TOP'', JString ''^'')])]
       = Inr [(''star'', JObject [(''TOP'', JString ''^'')]),
              (''balls'', JString ''O''),
              (''stars'', JString ''*'')]
   \<and> map_of [(''star'', JObject [(''TOP'', JString ''^'')]),
              (''balls'', JString ''O''),
              (''stars'', JString ''*'')] ''star''
       = Some (JObject [(''TOP'', JString ''^'')])"
proof -
  have d: "distinct (map fst [(''star'', JObject [(''TOP'', JString ''^'')])])"
    by simp
  have m: "mergeOptions [(''star'', JObject [(''TOP'', JString ''^'')])]
       = Inr [(''star'', JObject [(''TOP'', JString ''^'')]),
              (''balls'', JString ''O''),
              (''stars'', JString ''*'')]"
    by code_simp
  show ?thesis
    using d m mergeOptions_shallow [OF d m, of "''star''"] by simp
qed

section \<open>What the category passes replace\<close>

lemma replaceAll_replaceEvery: "sep \<noteq> [] \<Longrightarrow> replaceAll sep new s = replaceEvery sep new s"
proof (induction sep new s rule: replaceEvery.induct)
  case (1 sep new)
  then show ?case by simp
next
  case (2 sep new c cs)
  show ?case
  proof (cases "prefix sep (c # cs)")
    case True
    then show ?thesis
      using 2(1) 2(3) by (simp add: replaceAll_hit)
  next
    case False
    then show ?thesis
      using 2(2) 2(3) by (simp add: replaceAll_miss)
  qed
qed

lemma applyColorToChars_fold:
  "charPrefix \<noteq> [] \<Longrightarrow>
   applyColorToChars applied color charPrefix chars
   = fold (\<lambda>c t. replaceEvery (charPrefix @ c) (format color c) t) chars applied"
proof (induction chars arbitrary: applied)
  case Nil
  then show ?case by simp
next
  case (Cons c chars)
  have "joinJS (format color c) (splitJS (charPrefix @ c) applied)
        = replaceEvery (charPrefix @ c) (format color c) applied"
    using Cons.prems replaceAll_replaceEvery [of "charPrefix @ c"] by (simp add: replaceAll_def)
  then show ?case using Cons by simp
qed

lemma format_text:
  "format yellow c = esc # ''[38;2;255;255;0m'' @ c @ esc # ''[0m''"
  "format green c = esc # ''[38;2;0;255;0m'' @ c @ esc # ''[0m''"
  "format brown c = esc # ''[38;2;210;105;30m'' @ c @ esc # ''[0m''"
  by code_simp+


lemma applyColors_replaceEvery:
  assumes "yellowChars options = Inr chars"
  shows "applyColors options base
         = Inr (fold (\<lambda>c t. replaceEvery (''b'' @ c) (esc # ''[38;2;210;105;30m'' @ c @ esc # ''[0m'') t)
                  [''|'', ''_'']
                  (fold (\<lambda>c t. replaceEvery (''g'' @ c) (esc # ''[38;2;0;255;0m'' @ c @ esc # ''[0m'') t)
                     [''/'', [bslash], ''='']
                     (fold (\<lambda>c t. replaceEvery (''y'' @ c) (esc # ''[38;2;255;255;0m'' @ c @ esc # ''[0m'') t)
                        chars base)))"
proof -
  have f: "applyColorToChars t color [m] cs
           = fold (\<lambda>c t. replaceEvery ([m] @ c) (format color c) t) cs t" for t color m cs
    by (rule applyColorToChars_fold) simp
  show ?thesis
    using assms by (simp only: applyColors_def sum.case f format_text)
qed

section \<open>The yellow pass takes the \<open>stars\<close> value one character at a time\<close>

lemma allText_strings: "allText (map JString xs) = Inr xs"
  by (induction xs) auto

lemma objectValues_JString: "objectValues (JString s) = Inr (map (\<lambda>c. [c]) s)"
proof -
  have "map snd (map (\<lambda>i. (showNat i, JString [s ! i])) [0..<length s])
        = map JString (map (\<lambda>i. [s ! i]) [0..<length s])"
    by simp
  moreover have "map (\<lambda>i. [s ! i]) [0..<length s] = map (\<lambda>c. [c]) (map (\<lambda>i. s ! i) [0..<length s])"
    by simp
  ultimately show ?thesis
    by (simp only: objectValues_def objectEntries.simps sum.case allText_strings map_nth)
qed

text \<open>
  Claim C10, amended. When the \<open>stars\<close> option is a string of any length, the glyphs of the
  yellow pass are the values of \<open>star\<close> followed by the single characters of the \<open>stars\<close>
  value, one glyph per character. For each glyph in turn the pass replaces every
  occurrence of \<open>y\<close> followed by the glyph by the glyph between \<open>ESC[38;2;255;255;0m\<close> and
  \<open>ESC[0m\<close>; the green and the brown pass follow in the same way. After the yellow pass
  no \<open>y\<close> followed by a character of the \<open>stars\<close> value is left (the escape character
  apart). The \<open>stars\<close> value as a whole is a glyph only when it is a single character or
  also one of the values of \<open>star\<close>.
\<close>

theorem yellow_pass_by_character:
  assumes "getProp options ''stars'' = JString s"
    and "objectValues (getProp options ''star'') = Inr vs"
  shows "yellowChars options = Inr (vs @ map (\<lambda>c. [c]) s)
         \<and> applyColorToChars base yellow ''y'' (vs @ map (\<lambda>c. [c]) s)
             = fold (\<lambda>c t. replaceEvery (''y'' @ c) (esc # ''[38;2;255;255;0m'' @ c @ esc # ''[0m'') t)
                 (vs @ map (\<lambda>c. [c]) s) base
         \<and> applyColors options base
             = Inr (fold (\<lambda>c t. replaceEvery (''b'' @ c) (esc # ''[38;2;210;105;30m'' @ c @ esc # ''[0m'') t)
                      [''|'', ''_'']
                      (fold (\<lambda>c t. replaceEvery (''g'' @ c) (esc # ''[38;2;0;255;0m'' @ c @ esc # ''[0m'') t)
                         [''/'', [bslash], ''='']
                         (fold (\<lambda>c t. replaceEvery (''y'' @ c) (esc # ''[38;2;255;255;0m'' @ c @ esc # ''[0m'') t)
                            (vs @ map (\<lambda>c. [c]) s) base)))
         \<and> (\<forall>c\<in>set s. c \<noteq> esc \<longrightarrow>
                \<not> sublist [CHR ''y'', c] (applyColorToChars base yellow ''y'' (vs @ map (\<lambda>c. [c]) s)))
         \<and> (length s \<noteq> 1 \<and> s \<notin> set vs \<longrightarrow> s \<notin> set (vs @ map (\<lambda>c. [c]) s))"
proof -
  have y: "yellowChars options = Inr (vs @ map (\<lambda>c. [c]) s)"
    using assms by (simp add: yellowChars_def objectValues_JString)
  have "applyColorToChars base yellow ''y'' (vs @ map (\<lambda>c. [c]) s)
        = fold (\<lambda>c t. replaceEvery (''y'' @ c) (format yellow c) t) (vs @ map (\<lambda>c. [c]) s) base"
    by (rule applyColorToChars_fold) simp
  then have p: "applyColorToChars base yellow ''y'' (vs @ map (\<lambda>c. [c]) s)
        = fold (\<lambda>c t. replaceEvery (''y'' @ c) (esc # ''[38;2;255;255;0m'' @ c @ esc # ''[0m'') t)
            (vs @ map (\<lambda>c. [c]) s) base"
    by (simp only: format_text)
  have "s \<notin> set (map (\<lambda>c. [c]) s)" if "length s \<noteq> 1"
    using that by auto
  then have n: "length s \<noteq> 1 \<and> s \<notin> set vs \<longrightarrow> s \<notin> set (vs @ map (\<lambda>c. [c]) s)"
    by simp
  have g: "\<not> sublist [CHR ''y'', c] (applyColorToChars base yellow ''y'' (vs @ map (\<lambda>c. [c]) s))"
    if "c \<in> set s" "c \<noteq> esc" for c
  proof -
    have "CHR ''y'' \<in> set ''ygb''" by simp
    moreover have "esc \<notin> set [CHR ''y'', c]" using that(2) by (simp add: esc_def)
    moreover have "[c] \<in> set (vs @ map (\<lambda>c. [c]) s)" using that(1) by simp
    ultimately show ?thesis by (rule pass_establishes)
  qed
  from g have g': "\<forall>c\<in>set s. c \<noteq> esc \<longrightarrow>
      \<not> sublist [CHR ''y'', c] (applyColorToChars base yellow ''y'' (vs @ map (\<lambda>c. [c]) s))"
    by blast
  from y p n g' applyColors_replaceEvery [OF y, of base] show ?thesis by (intro conjI)
qed

text \<open>
  With \<open>stars: "ab"\<close> and the default \<open>star\<close>, the glyphs are the five star glyphs, \<open>a\<close> and
  \<open>b\<close>; in \<open>yab yb\<close> the passes wrap the \<open>a\<close> and the second \<open>b\<close>, and the \<open>b\<close> after the \<open>a\<close>
  stays as it is.
\<close>

theorem yellow_pass_by_character_witness:
  "mergeOptions [(''stars'', JString ''ab'')] = Inr (optionsStars ''ab'')
   \<and> getProp (optionsStars ''ab'') ''stars'' = JString ''ab''
   \<and> objectValues (getProp (optionsStars ''ab'') ''star'') = Inr [''|'', ''+'', ''-'', ''-'', ''A'']
   \<and> yellowChars (optionsStars ''ab'') = Inr [''|'', ''+'', ''-'', ''-'', ''A'', ''a'', ''b'']
   \<and> applyColors (optionsStars ''ab'') ''yab yb''
       = Inr (esc # ''[38;2;255;255;0ma'' @ esc # ''[0mb '' @ esc # ''[38;2;255;255;0mb'' @ esc # ''[0m'')"
proof -
  have a: "getProp (optionsStars ''ab'') ''stars'' = JString ''ab''"
    by code_simp
  have b: "objectValues (getProp (optionsStars ''ab'') ''star'') = Inr [''|'', ''+'', ''-'', ''-'', ''A'']"
    by code_simp
  have c: "fold (\<lambda>c t. replaceEvery (''b'' @ c) (esc # ''[38;2;210;105;30m'' @ c @ esc # ''[0m'') t)
             [''|'', ''_'']
             (fold (\<lambda>c t. replaceEvery (''g'' @ c) (esc # ''[38;2;0;255;0m'' @ c @ esc # ''[0m'') t)
                [''/'', [bslash], ''='']
                (fold (\<lambda>c t. replaceEvery (''y'' @ c) (esc # ''[38;2;255;255;0m'' @ c @ esc # ''[0m'') t)
                   ([''|'', ''+'', ''-'', ''-'', ''A''] @ map (\<lambda>c. [c]) ''ab'') ''yab yb''))
           = esc # ''[38;2;255;255;0ma'' @ esc # ''[0mb '' @ esc # ''[38;2;255;255;0mb'' @ esc # ''[0m''"
    by code_simp
  have m: "mergeOptions [(''stars'', JString ''ab'')] = Inr (optionsStars ''ab'')"
    by code_simp
  show ?thesis
    using m a b c yellow_pass_by_character [OF a b, of "''yab yb''"] by simp
qed

text \<open>
  Claim C10 as stated fails where it says that \<open>y\<close> followed by the whole value is never
  matched as one unit: with \<open>{star: {TOP: "ab"}, stars: "ab"}\<close> the value is also a glyph
  of \<open>star\<close>, and \<open>yab\<close> is replaced as a whole.
\<close>

theorem whole_value_matched:
  "(case mergeOptions [(''star'', JObject [(''TOP'', JString ''ab'')]), (''stars'', JString ''ab'')] of
      Inr options \<Rightarrow> applyColors options ''yab''
    | Inl e \<Rightarrow> Inl e)
   = Inr (esc # ''[38;2;255;255;0mab'' @ esc # ''[0m'')"
  by code_simp


section \<open>Validation lets \<open>null\<close> through\<close>

text \<open>
  Claim C1, at the input \<open>{balls: null}\<close>: \<open>typeof null\<close> is \<open>"object"\<close> and \<open>null\<close> is not an
  array, so validation enters the loop over the sub-keys, which visits nothing, and
  merging returns the options with the leaf \<open>null\<close> in them instead of raising the error.
\<close>

theorem mergeOptions_accepts_null:
  "mergeOptions [(''balls'', JNull)]
     = Inr [(''star'', JObject [(''TOP'', JString ''|''), (''TREE_STAR'', JString ''+''),
                                (''LEFT'', JString ''-''), (''RIGHT'', JString ''-''),
                                (''BOTTOM'', JString ''A'')]),
            (''balls'', JNull),
            (''stars'', JString ''*'')]"
  by code_simp

section \<open>The lights of the default tree\<close>

lemma default_merge: "mergeOptions [] = Inr defaultOptions"
  by code_simp

lemma default_balls: "getProp defaultOptions ''balls'' = JString ''O''"
  by code_simp

lemma default_yellow: "yellowChars defaultOptions = Inr [''|'', ''+'', ''-'', ''-'', ''A'', ''*'']"
  by code_simp

lemma regex_O:
  "regExpNew (''('' @ [bslash] @ ''d+)'' @ ''O'' @ ''?'')
   = Inr (Seq (Plus True Digit) (Opt True (Chr CHR ''O'')))"
  by code_simp

lemma default_pieces_eval:
  "(case substituted defaultOptions of
      Inr t \<Rightarrow>
        (let ps = pieces (Seq (Plus True Digit) (Opt True (Chr CHR ''O''))) t t
         in length ps = 17 \<and> list_all (list_all (\<lambda>c. c \<noteq> CHR ''O'')) ps)
    | Inl e \<Rightarrow> False)"
  by code_simp

lemma default_pieces:
  obtains t where "substituted defaultOptions = Inr t"
    and "length (pieces (Seq (Plus True Digit) (Opt True (Chr CHR ''O''))) t t) = 17"
    and "list_all (\<lambda>p. CHR ''O'' \<notin> set p) (pieces (Seq (Plus True Digit) (Opt True (Chr CHR ''O''))) t t)"
proof (cases "substituted defaultOptions")
  case (Inl e)
  with default_pieces_eval show ?thesis by simp
next
  case (Inr t)
  with default_pieces_eval
  have "length (pieces (Seq (Plus True Digit) (Opt True (Chr CHR ''O''))) t t) = 17"
    and "list_all (list_all (\<lambda>c. c \<noteq> CHR ''O'')) (pieces (Seq (Plus True Digit) (Opt True (Chr CHR ''O''))) t t)"
    by (simp_all add: Let_def)
  moreover from this(2)
  have "list_all (\<lambda>p. CHR ''O'' \<notin> set p) (pieces (Seq (Plus True Digit) (Opt True (Chr CHR ''O''))) t t)"
    by (auto simp: list_all_iff)
  ultimately show ?thesis using Inr that by blast
qed

lemma default_woven:
  "\<exists>ps. length ps = 17 \<and> list_all (\<lambda>p. CHR ''O'' \<notin> set p) ps
        \<and> (\<forall>rnd. ctree [] rnd = Inr (weave ps (\<lambda>k. generateColor (rnd k) ''O'') 0))"
proof -
  let ?chars = "[''|'', ''+'', ''-'', ''-'', ''A'', ''*'']"
  let ?rx = "Seq (Plus True Digit) (Opt True (Chr CHR ''O''))"
  obtain t where t: "substituted defaultOptions = Inr t" "length (pieces ?rx t t) = 17"
    "list_all (\<lambda>p. CHR ''O'' \<notin> set p) (pieces ?rx t t)"
    by (rule default_pieces)
  let ?ps = "map (paint ?chars) (pieces ?rx t t)"
  have e: "list_all (\<lambda>c. esc \<notin> set c) ?chars" by (simp add: esc_def)
  have g: "list_all (\<lambda>m. m \<notin> set ''O'') ''ygb''" by simp
  have c: "ctree [] rnd = Inr (weave ?ps (\<lambda>k. generateColor (rnd k) ''O'') 0)" for rnd
    using default_merge default_balls t(1) regex_O default_yellow e g by (rule ctree_woven)
  have "CHR ''O'' \<notin> set (paint ?chars p)" if "CHR ''O'' \<notin> set p" for p
    using that by (rule notin_paint) (simp_all add: esc_def ansiChars_def bslash_def)
  with t(3) have "list_all (\<lambda>p. CHR ''O'' \<notin> set p) ?ps"
    by (simp add: list_all_iff)
  moreover have "length ?ps = 17" using t(2) by simp
  ultimately show ?thesis using c by blast
qed

text \<open>
  Claim C2, amended. With the default configuration and every draw of \<open>Math.random()\<close> a
  double in \<open>[0, 1)\<close>, the returned text is seventeen stretches of text that hold no \<open>O\<close>,
  with sixteen lights between them, one for each digit run of the template (10, 20, 3BALL,
  40, 50, 60, 70, 80, 90, 100, 140, 150, 160, 170, 180, 190); the \<open>k\<close>-th light is made
  from the \<open>k\<close>-th draw and is the \<open>balls\<close> character \<open>O\<close> between the escape sequence of one
  of the six palette colors and the reset sequence.
\<close>

theorem default_tree_lights:
  assumes "\<forall>k. isDouble (rnd k) \<and> valD (rnd k) < 1"
  shows "\<exists>ps. length ps = 17
              \<and> (\<forall>p\<in>set ps. CHR ''O'' \<notin> set p)
              \<and> ctree [] rnd = Inr (weave ps (\<lambda>k. generateColor (rnd k) ''O'') 0)
              \<and> (\<forall>k. generateColor (rnd k) ''O'' \<in> set (wrappedInPalette ''O''))"
proof -
  obtain ps where ps: "length ps = 17" "list_all (\<lambda>p. CHR ''O'' \<notin> set p) ps"
    "\<And>rnd. ctree [] rnd = Inr (weave ps (\<lambda>k. generateColor (rnd k) ''O'') 0)"
    using default_woven by blast
  have "generateColor (rnd k) ''O'' \<in> set (wrappedInPalette ''O'')" for k
  proof -
    from assms have "isDouble (rnd k)" and "valD (rnd k) < 1" by simp_all
    then show ?thesis by (rule generateColor_wrapped)
  qed
  with ps show ?thesis
    by (auto simp: list_all_iff)
qed

theorem default_tree_lights_witness:
  "(\<forall>k. isDouble ((\<lambda>k. Dbl 0 0) k) \<and> valD ((\<lambda>k. Dbl 0 0) k) < 1)
   \<and> (\<exists>ps. length ps = 17
          \<and> ctree [] (\<lambda>k. Dbl 0 0)
              = Inr (weave ps (\<lambda>k. esc # ''[38;2;247;108;246mO'' @ esc # ''[0m'') 0))"
proof -
  have a: "\<forall>k. isDouble ((\<lambda>k. Dbl 0 0) k) \<and> valD ((\<lambda>k. Dbl 0 0) k) < 1" by simp
  have "generateColor (Dbl 0 0) ''O'' = esc # ''[38;2;247;108;246mO'' @ esc # ''[0m''"
    by code_simp
  with a default_tree_lights [OF a] show ?thesis by auto
qed

text \<open>
  Claim C2 as stated fails: the claim counts six light positions, and with every draw 0
  the returned text of the default configuration holds the ball glyph sixteen times (each
  of them a light, by the theorem above).
\<close>

theorem default_tree_sixteen_lights:
  "(case ctree [] (\<lambda>k. Dbl 0 0) of
      Inr out \<Rightarrow> length (filter (\<lambda>c. c = CHR ''O'') out)
    | Inl e \<Rightarrow> 0) = 16"
proof -
  obtain ps where ps: "length ps = 17" "list_all (\<lambda>p. CHR ''O'' \<notin> set p) ps"
    "\<And>rnd. ctree [] rnd = Inr (weave ps (\<lambda>k. generateColor (rnd k) ''O'') 0)"
    using default_woven by blast
  have "length (filter (\<lambda>c. c = CHR ''O'') (generateColor r ''O'')) = 1" for r
    by (rule count_light) (simp_all add: esc_def ansiChars_def)
  then have "length (filter (\<lambda>c. c = CHR ''O'') (weave ps (\<lambda>k. generateColor ((\<lambda>k. Dbl 0 0) k) ''O'') 0)) = 16"
    using ps(1,2) by (intro count_weave) simp_all
  then show ?thesis
    by (simp add: ps(3))
qed

section \<open>Configurations that differ from the defaults in one glyph\<close>

lemma optionsWith_balls: "getProp (optionsWith bottom balls) ''balls'' = JString balls"
  by (simp add: optionsWith_def getProp_def)

lemma optionsWith_yellow:
  "yellowChars (optionsWith bottom balls) = Inr [''|'', ''+'', ''-'', ''-'', bottom, ''*'']"
  by code_simp

lemma woven_with:
  assumes "mergeOptions newOptions = Inr (optionsWith bottom glyph)"
    and "substituted (optionsWith bottom glyph) = Inr t"
    and "regExpNew (''('' @ [bslash] @ ''d+)'' @ glyph @ ''?'') = Inr regex"
    and "esc \<notin> set bottom"
    and "list_all (\<lambda>m. m \<notin> set glyph) ''ygb''"
  shows "ctree newOptions rnd
         = Inr (weave (map (paint [''|'', ''+'', ''-'', ''-'', bottom, ''*'']) (pieces regex t t))
                  (\<lambda>k. generateColor (rnd k) glyph) 0)"
proof -
  have "list_all (\<lambda>c. esc \<notin> set c) [''|'', ''+'', ''-'', ''-'', bottom, ''*'']"
    using assms(4) by (simp add: esc_def)
  with assms(1) optionsWith_balls assms(2,3) optionsWith_yellow show ?thesis
    using assms(5) by (rule ctree_woven)
qed

lemma notin_woven:
  assumes "x \<noteq> esc" and "x \<notin> set ansiChars" and "x \<notin> set glyph"
    and "list_all (\<lambda>p. x \<notin> set p) ps"
  shows "x \<notin> set (weave ps (\<lambda>k. generateColor (rnd k) glyph) 0)"
proof -
  have "x \<notin> set (generateColor (rnd i) glyph)" for i
    using assms(1,2,3) by (rule notin_light)
  moreover have "x \<notin> set p" if "p \<in> set ps" for p
    using that assms(4) by (simp add: list_all_iff)
  ultimately show ?thesis
    using set_weave [of ps "\<lambda>k. generateColor (rnd k) glyph" 0] by blast
qed


section \<open>The tree with \<open>balls: "X"\<close>\<close>

lemma X_merge: "mergeOptions [(''balls'', JString ''X'')] = Inr (optionsWith ''A'' ''X'')"
  by code_simp

lemma regex_X:
  "regExpNew (''('' @ [bslash] @ ''d+)'' @ ''X'' @ ''?'')
   = Inr (Seq (Plus True Digit) (Opt True (Chr CHR ''X'')))"
  by code_simp

lemma X_pieces_eval:
  "(case substituted (optionsWith ''A'' ''X'') of
      Inr t \<Rightarrow>
        (let ps = pieces (Seq (Plus True Digit) (Opt True (Chr CHR ''X''))) t t
         in length ps = 17 \<and> list_all (list_all (\<lambda>c. c \<noteq> CHR ''X'')) ps
            \<and> list_all (list_all (\<lambda>c. c \<noteq> CHR ''B'')) ps)
    | Inl e \<Rightarrow> False)"
  by code_simp

lemma X_woven:
  "\<exists>ps. length ps = 17 \<and> list_all (\<lambda>p. CHR ''X'' \<notin> set p) ps
        \<and> list_all (\<lambda>p. CHR ''B'' \<notin> set p) ps
        \<and> (\<forall>rnd. ctree [(''balls'', JString ''X'')] rnd
                   = Inr (weave ps (\<lambda>k. generateColor (rnd k) ''X'') 0))"
proof -
  let ?chars = "[''|'', ''+'', ''-'', ''-'', ''A'', ''*'']"
  let ?rx = "Seq (Plus True Digit) (Opt True (Chr CHR ''X''))"
  obtain t where t: "substituted (optionsWith ''A'' ''X'') = Inr t"
    using X_pieces_eval by (cases "substituted (optionsWith ''A'' ''X'')") simp_all
  with X_pieces_eval have l: "length (pieces ?rx t t) = 17"
    and x: "list_all (list_all (\<lambda>c. c \<noteq> CHR ''X'')) (pieces ?rx t t)"
    and b: "list_all (list_all (\<lambda>c. c \<noteq> CHR ''B'')) (pieces ?rx t t)"
    by (simp_all add: Let_def)
  let ?ps = "map (paint ?chars) (pieces ?rx t t)"
  have c: "ctree [(''balls'', JString ''X'')] rnd
           = Inr (weave ?ps (\<lambda>k. generateColor (rnd k) ''X'') 0)" for rnd
    using X_merge t regex_X by (rule woven_with) (simp_all add: esc_def)
  have px: "CHR ''X'' \<notin> set (paint ?chars p)" if "CHR ''X'' \<notin> set p" for p
    using that by (rule notin_paint) (simp_all add: esc_def ansiChars_def bslash_def)
  have pb: "CHR ''B'' \<notin> set (paint ?chars p)" if "CHR ''B'' \<notin> set p" for p
    using that by (rule notin_paint) (simp_all add: esc_def ansiChars_def bslash_def)
  have "CHR ''X'' \<notin> set p" if "p \<in> set (pieces ?rx t t)" for p
    using that x unfolding list_all_iff by blast
  with px have "list_all (\<lambda>p. CHR ''X'' \<notin> set p) ?ps"
    unfolding list_all_iff by auto
  moreover have "CHR ''B'' \<notin> set p" if "p \<in> set (pieces ?rx t t)" for p
    using that b unfolding list_all_iff by blast
  with pb have "list_all (\<lambda>p. CHR ''B'' \<notin> set p) ?ps"
    unfolding list_all_iff by auto
  moreover have "length ?ps = 17" using l by simp
  ultimately show ?thesis using c by blast
qed

text \<open>
  Claim C8. For the configuration \<open>{balls: "X"}\<close> and every draw of \<open>Math.random()\<close> a
  double in \<open>[0, 1)\<close>, the returned text is seventeen stretches of text that hold no \<open>X\<close>,
  with sixteen lights between them; every light is the glyph \<open>X\<close> between the escape
  sequence of one of the six palette colors and the reset sequence, so every \<open>X\<close> of the
  text is a wrapped light; and \<open>BALL\<close> occurs nowhere in the text.
\<close>

theorem balls_X_lights:
  assumes "\<forall>k. isDouble (rnd k) \<and> valD (rnd k) < 1"
  shows "\<exists>ps. length ps = 17
              \<and> (\<forall>p\<in>set ps. CHR ''X'' \<notin> set p)
              \<and> ctree [(''balls'', JString ''X'')] rnd
                  = Inr (weave ps (\<lambda>k. generateColor (rnd k) ''X'') 0)
              \<and> (\<forall>k. generateColor (rnd k) ''X'' \<in> set (wrappedInPalette ''X''))
              \<and> \<not> sublist ''BALL'' (weave ps (\<lambda>k. generateColor (rnd k) ''X'') 0)"
proof -
  obtain ps where ps: "length ps = 17"
    "list_all (\<lambda>p. CHR ''X'' \<notin> set p) ps" "list_all (\<lambda>p. CHR ''B'' \<notin> set p) ps"
    "\<And>rnd. ctree [(''balls'', JString ''X'')] rnd
            = Inr (weave ps (\<lambda>k. generateColor (rnd k) ''X'') 0)"
    using X_woven by blast
  let ?f = "\<lambda>k. generateColor (rnd k) ''X''"
  have w: "generateColor (rnd k) ''X'' \<in> set (wrappedInPalette ''X'')" for k
  proof -
    from assms have "isDouble (rnd k)" and "valD (rnd k) < 1" by simp_all
    then show ?thesis by (rule generateColor_wrapped)
  qed
  have "CHR ''B'' \<notin> set (weave ps ?f 0)"
    using ps(3) by (rule notin_woven [rotated 3]) (simp_all add: esc_def ansiChars_def)
  moreover have "CHR ''B'' \<in> set (weave ps ?f 0)" if "sublist ''BALL'' (weave ps ?f 0)"
    using set_mono_sublist [OF that] by simp
  ultimately have "\<not> sublist ''BALL'' (weave ps ?f 0)" by blast
  with ps(1,2,4) w show ?thesis
    by (auto simp: list_all_iff)
qed

theorem balls_X_lights_witness:
  "(\<forall>k. isDouble ((\<lambda>k. Dbl 1 (- 1)) k) \<and> valD ((\<lambda>k. Dbl 1 (- 1)) k) < 1)
   \<and> (\<exists>ps. length ps = 17
          \<and> ctree [(''balls'', JString ''X'')] (\<lambda>k. Dbl 1 (- 1))
              = Inr (weave ps (\<lambda>k. esc # ''[38;2;236;21;0mX'' @ esc # ''[0m'') 0)
          \<and> \<not> sublist ''BALL'' (weave ps (\<lambda>k. esc # ''[38;2;236;21;0mX'' @ esc # ''[0m'') 0))"
proof -
  have a: "\<forall>k. isDouble ((\<lambda>k. Dbl 1 (- 1)) k) \<and> valD ((\<lambda>k. Dbl 1 (- 1)) k) < 1" by simp
  have "generateColor (Dbl 1 (- 1)) ''X'' = esc # ''[38;2;236;21;0mX'' @ esc # ''[0m''"
    by code_simp
  with a balls_X_lights [OF a] show ?thesis by auto
qed

section \<open>The glyph below the star\<close>

lemma V_merge: "mergeOptions [(''star'', starWith ''V'')] = Inr (optionsWith ''V'' ''O'')"
  by code_simp

lemma V_pieces_eval:
  "(case substituted (optionsWith ''V'' ''O'') of
      Inr t \<Rightarrow>
        (let ps = map (paint [''|'', ''+'', ''-'', ''-'', ''V'', ''*''])
                    (pieces (Seq (Plus True Digit) (Opt True (Chr CHR ''O''))) t t)
         in length ps = 17
            \<and> 1 < length (splitOn (newline # ''         yA'' @ [newline]) (hd ps))
            \<and> list_all (list_all (\<lambda>c. c \<noteq> CHR ''V'')) ps)
    | Inl e \<Rightarrow> False)"
  by code_simp

text \<open>
  Claim C4 fails. The template has no \<open>BOTTOM\<close> placeholder: the line below the star is
  the fixed text \<open>yA\<close>. With \<open>star.BOTTOM\<close> set to \<open>V\<close> (the other star glyphs as the
  defaults) the returned text holds no \<open>V\<close> at all, and the line below the star is the
  raw text \<open>yA\<close>, marker letter included, since \<open>A\<close> is now no yellow glyph.
\<close>

theorem bottom_glyph_not_displayed:
  "\<exists>out. ctree [(''star'', starWith ''V'')] rnd = Inr out
         \<and> sublist (newline # ''         yA'' @ [newline]) out
         \<and> CHR ''V'' \<notin> set out"
proof -
  let ?chars = "[''|'', ''+'', ''-'', ''-'', ''V'', ''*'']"
  let ?rx = "Seq (Plus True Digit) (Opt True (Chr CHR ''O''))"
  let ?line = "newline # ''         yA'' @ [newline]"
  obtain t where t: "substituted (optionsWith ''V'' ''O'') = Inr t"
    using V_pieces_eval by (cases "substituted (optionsWith ''V'' ''O'')") simp_all
  let ?ps = "map (paint ?chars) (pieces ?rx t t)"
  let ?out = "weave ?ps (\<lambda>k. generateColor (rnd k) ''O'') 0"
  from t V_pieces_eval have l: "length ?ps = 17"
    and s: "1 < length (splitOn ?line (hd ?ps))"
    and v: "list_all (list_all (\<lambda>c. c \<noteq> CHR ''V'')) ?ps"
    by (simp_all add: Let_def)
  have c: "ctree [(''star'', starWith ''V'')] rnd = Inr ?out"
    using V_merge t regex_O by (rule woven_with) (simp_all add: esc_def)
  from l have "?ps \<noteq> []" by auto
  then have "prefix (hd ?ps) ?out" by (rule weave_prefix)
  then have "sublist (hd ?ps) ?out" by (rule prefix_imp_sublist)
  moreover have "sublist ?line (hd ?ps)"
    using s by (subst sublist_iff_splitOn) simp_all
  ultimately have "sublist ?line ?out"
    by (rule sublist_order.order.trans [rotated])
  moreover have "list_all (\<lambda>p. CHR ''V'' \<notin> set p) ?ps"
    using v unfolding list_all_iff by blast
  then have "CHR ''V'' \<notin> set ?out"
    by (rule notin_woven [rotated 3]) (simp_all add: esc_def ansiChars_def)
  ultimately show ?thesis using c by blast
qed

section \<open>A ball glyph that the regular expression reads as syntax\<close>

lemma plus_merge: "mergeOptions [(''balls'', JString ''+'')] = Inr (optionsWith ''A'' ''+'')"
  by code_simp

lemma regex_plus:
  "regExpNew (''('' @ [bslash] @ ''d+)'' @ ''+'' @ ''?'') = Inr (Plus False (Plus True Digit))"
  by code_simp

lemma plus_small: "pieces (Plus False (Plus True Digit)) ''3+'' ''3+'' = [[], ''+'']"
  by code_simp

lemma plus_pieces_eval:
  "(case substituted (optionsWith ''A'' ''+'') of
      Inr t \<Rightarrow>
        (let ps = pieces (Plus False (Plus True Digit)) t t
         in length ps = 17
            \<and> prefix ''+'' (paint [''|'', ''+'', ''-'', ''-'', ''A'', ''*''] (ps ! 3)))
    | Inl e \<Rightarrow> False)"
  by code_simp

text \<open>
  Claim C5 fails. The ball glyph is put into the regular expression as it is. For the
  glyph \<open>+\<close> the expression is \<open>(\d+)+?\<close>: a digit run, with no glyph after it. On the text
  \<open>3+\<close> the pass replaces the \<open>3\<close> and leaves the \<open>+\<close> behind, and in the tree of
  \<open>{balls: "+"}\<close> the stretch of text after the third light (\<open>3BALL\<close> in the template)
  starts with that \<open>+\<close>.
\<close>

theorem light_pass_leaves_glyph:
  "applyColorsToLights (JString ''+'') rnd ''3+'' = Inr (generateColor (rnd 0) ''+'' @ ''+'')
   \<and> (\<exists>ps. length ps = 17 \<and> prefix ''+'' (ps ! 3)
          \<and> ctree [(''balls'', JString ''+'')] rnd
              = Inr (weave ps (\<lambda>k. generateColor (rnd k) ''+'') 0))"
proof
  show "applyColorsToLights (JString ''+'') rnd ''3+'' = Inr (generateColor (rnd 0) ''+'' @ ''+'')"
    using regex_plus by (simp add: applyColorsToLights_def replaceG_weave plus_small)
next
  let ?chars = "[''|'', ''+'', ''-'', ''-'', ''A'', ''*'']"
  let ?rx = "Plus False (Plus True Digit)"
  obtain t where t: "substituted (optionsWith ''A'' ''+'') = Inr t"
    using plus_pieces_eval by (cases "substituted (optionsWith ''A'' ''+'')") simp_all
  let ?ps = "map (paint ?chars) (pieces ?rx t t)"
  from t plus_pieces_eval have l: "length ?ps = 17"
    and p: "prefix ''+'' (paint ?chars (pieces ?rx t t ! 3))"
    by (simp_all add: Let_def)
  have "ctree [(''balls'', JString ''+'')] rnd
        = Inr (weave ?ps (\<lambda>k. generateColor (rnd k) ''+'') 0)"
    using plus_merge t regex_plus by (rule woven_with) (simp_all add: esc_def)
  moreover have "?ps ! 3 = paint ?chars (pieces ?rx t t ! 3)"
    using l by (intro nth_map) simp
  ultimately show "\<exists>ps. length ps = 17 \<and> prefix ''+'' (ps ! 3)
          \<and> ctree [(''balls'', JString ''+'')] rnd
              = Inr (weave ps (\<lambda>k. generateColor (rnd k) ''+'') 0)"
    using l p by metis
qed

section \<open>Category markers in the returned text\<close>

lemma default_markers_eval:
  "(case substituted defaultOptions of
      Inr t \<Rightarrow>
        list_all (list_all (\<lambda>c. c \<noteq> CHR ''y'' \<and> c \<noteq> CHR ''g'' \<and> c \<noteq> CHR ''b''))
          (map (paint [''|'', ''+'', ''-'', ''-'', ''A'', ''*''])
             (pieces (Seq (Plus True Digit) (Opt True (Chr CHR ''O''))) t t))
    | Inl e \<Rightarrow> False)"
  by code_simp

lemma default_no_markers:
  "\<exists>out. ctree [] rnd = Inr out
         \<and> CHR ''y'' \<notin> set out \<and> CHR ''g'' \<notin> set out \<and> CHR ''b'' \<notin> set out"
proof -
  let ?chars = "[''|'', ''+'', ''-'', ''-'', ''A'', ''*'']"
  let ?rx = "Seq (Plus True Digit) (Opt True (Chr CHR ''O''))"
  obtain t where t: "substituted defaultOptions = Inr t"
    using default_markers_eval by (cases "substituted defaultOptions") simp_all
  let ?ps = "map (paint ?chars) (pieces ?rx t t)"
  let ?out = "weave ?ps (\<lambda>k. generateColor (rnd k) ''O'') 0"
  from t default_markers_eval
  have m: "list_all (list_all (\<lambda>c. c \<noteq> CHR ''y'' \<and> c \<noteq> CHR ''g'' \<and> c \<noteq> CHR ''b'')) ?ps"
    by simp
  have e: "list_all (\<lambda>c. esc \<notin> set c) ?chars" by (simp add: esc_def)
  have g: "list_all (\<lambda>m. m \<notin> set ''O'') ''ygb''" by simp
  have c: "ctree [] rnd = Inr ?out"
    using default_merge default_balls t regex_O default_yellow e g by (rule ctree_woven)
  have "list_all (\<lambda>p. CHR ''y'' \<notin> set p) ?ps"
    using m unfolding list_all_iff by blast
  then have y: "CHR ''y'' \<notin> set ?out"
    by (rule notin_woven [rotated 3]) (simp_all add: esc_def ansiChars_def)
  have "list_all (\<lambda>p. CHR ''g'' \<notin> set p) ?ps"
    using m unfolding list_all_iff by blast
  then have g: "CHR ''g'' \<notin> set ?out"
    by (rule notin_woven [rotated 3]) (simp_all add: esc_def ansiChars_def)
  have "list_all (\<lambda>p. CHR ''b'' \<notin> set p) ?ps"
    using m unfolding list_all_iff by blast
  then have b: "CHR ''b'' \<notin> set ?out"
    by (rule notin_woven [rotated 3]) (simp_all add: esc_def ansiChars_def)
  from c y g b show ?thesis by blast
qed

text \<open>
  Claim C7, amended. The program returns \<open>applyColors(applyColorsToLights(input))\<close>. Let
  \<open>out\<close> be what the invocation returns or, more generally, what the category passes
  return for any text \<open>lit\<close> that the light pass hands to them. Then \<open>out\<close> holds no marker
  letter followed by a glyph of its category as the merged configuration gives it (yellow:
  the values of \<open>star\<close> and the characters of \<open>stars\<close>; green: \<open>/\<close>, the backslash and \<open>=\<close>;
  brown: \<open>|\<close> and \<open>_\<close>), for every glyph that holds no escape character. A marker letter
  in front of other text is not touched. With the default configuration every marker of
  the template is followed by a glyph of its category, and the returned text holds no
  \<open>y\<close>, \<open>g\<close> or \<open>b\<close> at all.
\<close>

theorem markers_consumed:
  assumes "mergeOptions newOptions = Inr options"
    and "yellowChars options = Inr chars"
    and "ctree newOptions rnd = Inr out \<or> applyColors options lit = Inr out"
  shows "(\<forall>c\<in>set chars. esc \<notin> set c \<longrightarrow> \<not> sublist (''y'' @ c) out)
         \<and> (\<forall>c\<in>set [''/'', [bslash], ''=''] . \<not> sublist (''g'' @ c) out)
         \<and> (\<forall>c\<in>set [''|'', ''_'']. \<not> sublist (''b'' @ c) out)
         \<and> (\<exists>out0. ctree [] rnd = Inr out0
                \<and> CHR ''y'' \<notin> set out0 \<and> CHR ''g'' \<notin> set out0 \<and> CHR ''b'' \<notin> set out0)"
proof -
  from assms(3) obtain lit' where out: "out = paint chars lit'"
  proof
    assume "ctree newOptions rnd = Inr out"
    then have "\<exists>lit'. out = paint chars lit'"
      using assms(1,2) by (rule ctree_Inr_paint)
    then show ?thesis using that by blast
  next
    assume "applyColors options lit = Inr out"
    then have "out = paint chars lit"
      using assms(2) by (simp add: applyColors_paint)
    then show ?thesis using that by blast
  qed
  have "\<not> sublist (''y'' @ c) out" if "c \<in> set chars" "esc \<notin> set c" for c
    unfolding out using that by (rule paint_free_yellow)
  moreover have "\<not> sublist (''g'' @ c) out" if "c \<in> set [''/'', [bslash], ''='']" for c
    unfolding out using that by (rule paint_free_green)
  moreover have "\<not> sublist (''b'' @ c) out" if "c \<in> set [''|'', ''_'']" for c
    unfolding out using that by (rule paint_free_brown)
  ultimately show ?thesis using default_no_markers [of rnd] by blast
qed

theorem markers_consumed_witness:
  "mergeOptions [] = Inr defaultOptions
   \<and> yellowChars defaultOptions = Inr [''|'', ''+'', ''-'', ''-'', ''A'', ''*'']
   \<and> (\<exists>out. ctree [] (\<lambda>k. Dbl 0 0) = Inr out
          \<and> \<not> sublist ''y|'' out \<and> \<not> sublist ''y-'' out \<and> \<not> sublist ''yA'' out
          \<and> \<not> sublist ''y*'' out \<and> \<not> sublist ''g/'' out \<and> \<not> sublist ''g='' out
          \<and> \<not> sublist ''b|'' out \<and> \<not> sublist ''b_'' out
          \<and> CHR ''y'' \<notin> set out \<and> CHR ''g'' \<notin> set out \<and> CHR ''b'' \<notin> set out)"
proof -
  obtain out where c: "ctree [] (\<lambda>k. Dbl 0 0) = Inr out"
    using default_woven by blast
  then have d: "ctree [] (\<lambda>k. Dbl 0 0) = Inr out \<or> applyColors defaultOptions [] = Inr out"
    by simp
  from markers_consumed [OF default_merge default_yellow d]
  have y: "\<forall>c\<in>set [''|'', ''+'', ''-'', ''-'', ''A'', ''*'']. esc \<notin> set c \<longrightarrow> \<not> sublist (''y'' @ c) out"
    and g: "\<forall>c\<in>set [''/'', [bslash], ''='']. \<not> sublist (''g'' @ c) out"
    and b: "\<forall>c\<in>set [''|'', ''_'']. \<not> sublist (''b'' @ c) out"
    and n: "\<exists>out0. ctree [] (\<lambda>k. Dbl 0 0) = Inr out0
                \<and> CHR ''y'' \<notin> set out0 \<and> CHR ''g'' \<notin> set out0 \<and> CHR ''b'' \<notin> set out0"
    by blast+
  from y have "\<not> sublist ''y|'' out" "\<not> sublist ''y-'' out" "\<not> sublist ''yA'' out" "\<not> sublist ''y*'' out"
    by (simp_all add: esc_def)
  moreover from g have "\<not> sublist ''g/'' out" "\<not> sublist ''g='' out"
    by simp_all
  moreover from b have "\<not> sublist ''b|'' out" "\<not> sublist ''b_'' out"
    by simp_all
  moreover from n c have "CHR ''y'' \<notin> set out" "CHR ''g'' \<notin> set out" "CHR ''b'' \<notin> set out"
    by simp_all
  ultimately show ?thesis
    using c default_merge default_yellow by blast
qed

lemma starTop_eval:
  "(case ctree (starTop ''^'') (\<lambda>k. Dbl 0 0) of
      Inr out \<Rightarrow>
        (length (splitOn ''yLEFTyANGELyRIGHT'' out), length (splitOn (newline # ''         yA'' @ [newline]) out))
    | Inl e \<Rightarrow> (0, 0)) = (2, 2)"
  by code_simp

lemma starTop_yellow:
  "(case mergeOptions (starTop ''^'') of
      Inr options \<Rightarrow> yellowChars options
    | Inl e \<Rightarrow> Inl e) = Inr [''^'', ''*'']"
  by code_simp

lemma escapeStar_eval:
  "(case ctree escapeStar (\<lambda>k. Dbl 0 0) of
      Inr out \<Rightarrow> length (splitOn (''y'' @ [esc]) out)
    | Inl e \<Rightarrow> 0) = 2"
  by code_simp

lemma escapeStar_yellow:
  "(case mergeOptions escapeStar of
      Inr options \<Rightarrow> yellowChars options
    | Inl e \<Rightarrow> Inl e) = Inr [[esc], ''y'', ''*'']"
  by code_simp

text \<open>
  Claim C7 as stated fails. With \<open>{star: {TOP: "^"}}\<close> every leaf is text; the star object
  of the caller replaces the default one, so \<open>LEFT\<close> and \<open>RIGHT\<close> are not substituted, the
  yellow glyphs are \<open>^\<close> and \<open>*\<close>, and the returned text still holds the marker-prefixed
  placeholders \<open>yLEFTyANGELyRIGHT\<close> and the line \<open>yA\<close>. And a glyph can come back behind a
  marker letter when it holds the escape character: with \<open>{star: {TOP: "\x1b", LEFT:
  "y"}}\<close> the yellow glyphs are the escape character, \<open>y\<close> and \<open>*\<close>, and the returned text
  holds \<open>y\<close> followed by the escape character (the pass for the glyph \<open>y\<close>, which runs
  after the pass for the escape character, writes a \<open>y\<close> in front of a reset sequence).
\<close>

theorem markers_left_behind:
  "(case mergeOptions (starTop ''^'') of
      Inr options \<Rightarrow> yellowChars options
    | Inl e \<Rightarrow> Inl e) = Inr [''^'', ''*'']
   \<and> (case ctree (starTop ''^'') (\<lambda>k. Dbl 0 0) of
        Inr out \<Rightarrow> sublist ''yLEFTyANGELyRIGHT'' out
                    \<and> sublist (newline # ''         yA'' @ [newline]) out
      | Inl e \<Rightarrow> False)
   \<and> (case mergeOptions escapeStar of
        Inr options \<Rightarrow> yellowChars options
      | Inl e \<Rightarrow> Inl e) = Inr [[esc], ''y'', ''*'']
   \<and> (case ctree escapeStar (\<lambda>k. Dbl 0 0) of
        Inr out \<Rightarrow> sublist (''y'' @ [esc]) out
      | Inl e \<Rightarrow> False)"
proof -
  have a: "(case ctree (starTop ''^'') (\<lambda>k. Dbl 0 0) of
              Inr out \<Rightarrow> sublist ''yLEFTyANGELyRIGHT'' out
                          \<and> sublist (newline # ''         yA'' @ [newline]) out
            | Inl e \<Rightarrow> False)"
  proof (cases "ctree (starTop ''^'') (\<lambda>k. Dbl 0 0)")
    case (Inl e)
    with starTop_eval show ?thesis by simp
  next
    case (Inr out)
    with starTop_eval have "1 < length (splitOn ''yLEFTyANGELyRIGHT'' out)"
      and "1 < length (splitOn (newline # ''         yA'' @ [newline]) out)" by simp_all
    then have "sublist ''yLEFTyANGELyRIGHT'' out"
      and "sublist (newline # ''         yA'' @ [newline]) out"
      by (subst sublist_iff_splitOn; simp)+
    with Inr show ?thesis by simp
  qed
  have b: "(case ctree escapeStar (\<lambda>k. Dbl 0 0) of
              Inr out \<Rightarrow> sublist (''y'' @ [esc]) out
            | Inl e \<Rightarrow> False)"
  proof (cases "ctree escapeStar (\<lambda>k. Dbl 0 0)")
    case (Inl e)
    with escapeStar_eval show ?thesis by simp
  next
    case (Inr out)
    with escapeStar_eval have "1 < length (splitOn (''y'' @ [esc]) out)" by simp
    then have "sublist (''y'' @ [esc]) out"
      by (subst sublist_iff_splitOn) simp_all
    with Inr show ?thesis by simp
  qed
  from a b starTop_yellow escapeStar_yellow show ?thesis by (simp only: simp_thms)
qed

end
